theory Spec2Isabelle
  imports Main "HOL-Library.AList" "HOL-Library.Sublist"
begin

section \<open>Data model\<close>

text \<open>
  A state object as the upstream platform serialises it. The transports read
  \<open>entity_id\<close>, \<open>state\<close>, \<open>attributes\<close> and \<open>last_updated\<close>; \<open>last_changed\<close> is
  carried by every upstream state object and is never read by the code.
\<close>

record ha_state =
  entity_id :: string
  state :: string
  attributes :: "(string \<times> string) list"
  last_changed :: string
  last_updated :: string

text \<open>
  Every JavaScript \<open>Error\<close> the modelled code constructs or passes on, one constructor
  per message the source builds.
\<close>

datatype error =
    GetStateFailed nat string
  | GetAllStatesFailed nat string
  | HealthCheckFailed nat string
  | JsonParseError
  | NetworkFailure string
  | AuthInvalid string
  | ConnectionTimeout
  | ConnectionClosed
  | RequestTimedOut
  | SocketFailure string
  | NoTransport
  | CollaboratorFailure string

text \<open>
  A subscriber callback is opaque code: the model records that it was invoked and
  whether it returned or threw. It is assumed not to call back into the transport.
\<close>

datatype cb_result = Returned | Threw string

text \<open>
  A frame of the streaming channel after \<open>JSON.parse\<close>. The handler is duck-typed: it
  reads \<open>type\<close>, \<open>id\<close>, \<open>message\<close>, \<open>success\<close>, \<open>result\<close> and \<open>event\<close>, each of which
  may be missing.
\<close>

record state_changed_data =
  ev_entity_id :: string
  old_state :: "ha_state option"
  new_state :: "ha_state option"

record event_payload =
  event_type :: string
  event_data :: state_changed_data

record parsed_msg =
  msg_type :: string
  msg_id :: "nat option"
  msg_message :: "string option"
  msg_success :: bool
  msg_result :: "ha_state list option"
  msg_event :: "event_payload option"

datatype raw_frame = Malformed | Json parsed_msg

text \<open>
  Who awaits the promise of a \<open>call\<close>: \<open>activateStateSubscription\<close>, whose continuation
  sets the upstream-subscribed flag, or code outside the transport.
\<close>

datatype caller = ActivateSub | External nat

text \<open>What the transports do that an observer can see, in program order.\<close>

datatype effect =
    Invoked string string "ha_state option" "ha_state option"
  | CallbackErrorLogged string string
  | CallResolved caller nat parsed_msg
  | CallRejected caller error
  | SubscribeFailedLogged error
  | UnhandledRejection error

record subscription =
  sub_id :: string
  entityIds :: "string list"
  callback :: "string \<Rightarrow> ha_state option \<Rightarrow> ha_state option \<Rightarrow> cb_result"

record rest_subscription = subscription +
  lastStates :: "string \<rightharpoonup> ha_state"

text \<open>
  A JavaScript \<open>Set\<close> of strings is a duplicate-free list in insertion order:
  \<open>has\<close> is membership, \<open>size === 0\<close> is \<open>= []\<close>, \<open>Array.from\<close> is the list itself.
\<close>

definition set_add :: "string \<Rightarrow> string list \<Rightarrow> string list" where
  "set_add x xs = (if x \<in> set xs then xs else xs @ [x])"

definition new_Set :: "string list \<Rightarrow> string list" where
  "new_Set xs = foldl (\<lambda>acc x. set_add x acc) [] xs"

text \<open>
  The try/catch around a callback invocation, as both transports write it: the
  callback runs, and an exception is logged with the subscription id.
\<close>

definition invoke ::
  "('a subscription_scheme) \<Rightarrow> string \<Rightarrow> ha_state option \<Rightarrow> ha_state option \<Rightarrow> effect list" where
  "invoke sub eid new old =
     (case callback sub eid new old of
        Returned \<Rightarrow> [Invoked (sub_id sub) eid new old]
      | Threw err \<Rightarrow> [Invoked (sub_id sub) eid new old, CallbackErrorLogged (sub_id sub) err])"

section \<open>RestReadTransport\<close>

text \<open>
  The outcome of one \<open>fetch\<close>: the promise rejects, or a response arrives with its
  status, its body text and the body parsed as JSON (\<open>None\<close> when \<open>res.json()\<close> throws).
\<close>

datatype 'a fetch_outcome = NetworkError string | Response nat string "'a option"

definition res_ok :: "nat \<Rightarrow> bool" where
  "res_ok status = (200 \<le> status \<and> status \<le> 299)"

text \<open>The upstream REST endpoints the transport fetches from.\<close>

record rest_upstream =
  get_root :: "unit fetch_outcome"
  get_state :: "string \<Rightarrow> ha_state fetch_outcome"
  get_states :: "ha_state list fetch_outcome"

text \<open>\<open>RestReadTransport.connect\<close>: one health check; the catch block rethrows.\<close>

definition connect_rest :: "rest_upstream \<Rightarrow> error + bool" where
  "connect_rest up =
     (case get_root up of
        NetworkError e \<Rightarrow> Inl (NetworkFailure e)
      | Response status txt _ \<Rightarrow>
          if res_ok status then Inr True else Inl (HealthCheckFailed status txt))"

text \<open>\<open>RestReadTransport.getState\<close>: the body of the try block, then the catch.\<close>

definition getState_rest_try :: "rest_upstream \<Rightarrow> string \<Rightarrow> error + ha_state option" where
  "getState_rest_try up entityId =
     (case get_state up entityId of
        NetworkError e \<Rightarrow> Inl (NetworkFailure e)
      | Response status txt json \<Rightarrow>
          if res_ok status then
            (case json of None \<Rightarrow> Inl JsonParseError | Some s \<Rightarrow> Inr (Some s))
          else if status = 404 then Inr None
          else Inl (GetStateFailed status txt))"

definition getState_rest :: "rest_upstream \<Rightarrow> string \<Rightarrow> error + ha_state option" where
  "getState_rest up entityId =
     (case getState_rest_try up entityId of
        Inl err \<Rightarrow> Inr None
      | Inr v \<Rightarrow> Inr v)"

text \<open>\<open>RestReadTransport.getAllStates\<close>: any failure is logged and gives the empty list.\<close>

definition getAllStates_rest_try :: "rest_upstream \<Rightarrow> error + ha_state list" where
  "getAllStates_rest_try up =
     (case get_states up of
        NetworkError e \<Rightarrow> Inl (NetworkFailure e)
      | Response status txt json \<Rightarrow>
          if res_ok status then
            (case json of None \<Rightarrow> Inl JsonParseError | Some ss \<Rightarrow> Inr ss)
          else Inl (GetAllStatesFailed status txt))"

definition getAllStates_rest :: "rest_upstream \<Rightarrow> ha_state list" where
  "getAllStates_rest up =
     (case getAllStates_rest_try up of Inl err \<Rightarrow> [] | Inr ss \<Rightarrow> ss)"

text \<open>
  The loop both \<open>getStates\<close> implementations share: a \<open>Map\<close> from entity id to state,
  filled in the order of the upstream list. \<open>Map.set\<close> on a present key replaces the
  value in place, on a fresh key appends: that is \<open>AList.update\<close>.
\<close>

fun getStates_loop ::
  "string list \<Rightarrow> ha_state list \<Rightarrow> (string \<times> ha_state) list \<Rightarrow> (string \<times> ha_state) list" where
  "getStates_loop entityIdSet [] result = result"
| "getStates_loop entityIdSet (s # rest) result =
     getStates_loop entityIdSet rest
       (if entity_id s \<in> set entityIdSet then AList.update (entity_id s) s result else result)"

definition getStates_rest :: "rest_upstream \<Rightarrow> string list \<Rightarrow> (string \<times> ha_state) list" where
  "getStates_rest up entityIds' =
     getStates_loop (new_Set entityIds') (getAllStates_rest up) []"

text \<open>\<open>RestReadTransport.stateChanged\<close>.\<close>

definition stateChanged :: "ha_state \<Rightarrow> ha_state \<Rightarrow> bool" where
  "stateChanged oldState newState =
     (if state oldState \<noteq> state newState then True
      else if last_updated oldState \<noteq> last_updated newState then True
      else False)"

text \<open>
  \<open>RestReadTransport.pollStates\<close>. First loop: the union of all wanted entity ids,
  cleared as soon as one subscription wants every entity.
\<close>

fun collectEntityIds :: "rest_subscription list \<Rightarrow> string list \<Rightarrow> string list" where
  "collectEntityIds [] allEntityIds = allEntityIds"
| "collectEntityIds (sub # rest) allEntityIds =
     (if entityIds sub = [] then []
      else collectEntityIds rest (foldl (\<lambda>acc x. set_add x acc) allEntityIds (entityIds sub)))"

text \<open>The inner loop over the states relevant to one subscription.\<close>

fun checkStates :: "rest_subscription \<Rightarrow> ha_state list \<Rightarrow> rest_subscription \<times> effect list" where
  "checkStates sub [] = (sub, [])"
| "checkStates sub (newState # rest) =
     (let oldState = lastStates sub (entity_id newState);
          fired = (case oldState of
                     None \<Rightarrow> invoke sub (entity_id newState) (Some newState) None
                   | Some old \<Rightarrow>
                       if stateChanged old newState
                       then invoke sub (entity_id newState) (Some newState) (Some old)
                       else []);
          sub' = sub\<lparr>lastStates := (lastStates sub)(entity_id newState \<mapsto> newState)\<rparr>;
          r = checkStates sub' rest
      in (fst r, fired @ snd r))"

definition relevantStates :: "rest_subscription \<Rightarrow> ha_state list \<Rightarrow> ha_state list" where
  "relevantStates sub states =
     (if entityIds sub = [] then states
      else filter (\<lambda>s. entity_id s \<in> set (entityIds sub)) states)"

text \<open>The outer loop over the subscriptions, in the insertion order of the map.\<close>

fun checkSubscriptions ::
  "rest_subscription list \<Rightarrow> ha_state list \<Rightarrow> rest_subscription list \<times> effect list" where
  "checkSubscriptions [] states = ([], [])"
| "checkSubscriptions (sub # rest) states =
     (let r1 = checkStates sub (relevantStates sub states);
          r2 = checkSubscriptions rest states
      in (fst r1 # fst r2, snd r1 @ snd r2))"

definition pollStates ::
  "rest_upstream \<Rightarrow> rest_subscription list \<Rightarrow> rest_subscription list \<times> effect list" where
  "pollStates up subs =
     (if subs = [] then (subs, [])
      else
        let allEntityIds = collectEntityIds subs [];
            states = (if allEntityIds = [] then getAllStates_rest up
                      else map snd (getStates_rest up allEntityIds))
        in checkSubscriptions subs states)"

section \<open>WsReadTransport\<close>

datatype ready_state = CONNECTING | OPEN | CLOSING | CLOSED

datatype promise_state = Pending | Resolved | Rejected error

text \<open>A command object: its \<open>type\<close> and, for \<open>subscribe_events\<close>, its \<open>event_type\<close>.\<close>

datatype command = Command string "string option"

datatype out_msg = AuthMsg string | CommandMsg nat command

text \<open>
  The fields of a \<open>WsReadTransport\<close> object. \<open>socket\<close> holds the ready state of the
  current socket (\<open>None\<close>: undefined). \<open>readyWaiters\<close> are the calls suspended at
  \<open>await this.waitUntilReady()\<close> on the current ready promise. \<open>connectPromise\<close> is the
  promise of the latest \<open>connect()\<close>. \<open>connectionTimeout\<close> and \<open>reconnectTimeout\<close> say
  whether the timer is armed. \<open>outbox\<close> and \<open>effects\<close> are the frames written to the
  socket and the trace of observable effects.
\<close>

record ws_state =
  token :: string
  nextId :: nat
  pending :: "(nat \<times> caller) list"
  subscriptions :: "subscription list"
  isConnected :: bool
  stateSubscriptionActive :: bool
  socket :: "ready_state option"
  readyPromise :: promise_state
  readyWaiters :: "(caller \<times> command) list"
  connectPromise :: promise_state
  connectionTimeout :: bool
  reconnectTimeout :: bool
  outbox :: "out_msg list"
  effects :: "effect list"

text \<open>The constructor.\<close>

definition ws_init :: "string \<Rightarrow> ws_state" where
  "ws_init tok =
     \<lparr>token = tok, nextId = 1, pending = [], subscriptions = [], isConnected = False,
      stateSubscriptionActive = False, socket = None, readyPromise = Pending,
      readyWaiters = [], connectPromise = Pending, connectionTimeout = False,
      reconnectTimeout = False, outbox = [], effects = []\<rparr>"

definition emit :: "effect \<Rightarrow> ws_state \<Rightarrow> ws_state" where
  "emit e st = st\<lparr>effects := effects st @ [e]\<rparr>"

text \<open>\<open>sendRaw\<close>: a frame is dropped unless the socket exists and is open.\<close>

definition sendRaw :: "out_msg \<Rightarrow> ws_state \<Rightarrow> ws_state" where
  "sendRaw payload st =
     (if socket st = Some OPEN then st\<lparr>outbox := outbox st @ [payload]\<rparr> else st)"

text \<open>
  Settling the promise of a call, with the continuation of its awaiter: after a
  response \<open>activateStateSubscription\<close> sets its flag, after a rejection its catch
  block logs.
\<close>

definition resolve_call :: "caller \<Rightarrow> nat \<Rightarrow> parsed_msg \<Rightarrow> ws_state \<Rightarrow> ws_state" where
  "resolve_call c i m st =
     (case c of
        ActivateSub \<Rightarrow> (emit (CallResolved c i m) st)\<lparr>stateSubscriptionActive := True\<rparr>
      | External n \<Rightarrow> emit (CallResolved c i m) st)"

definition reject_call :: "caller \<Rightarrow> error \<Rightarrow> ws_state \<Rightarrow> ws_state" where
  "reject_call c e st =
     (case c of
        ActivateSub \<Rightarrow> emit (SubscribeFailedLogged e) (emit (CallRejected c e) st)
      | External n \<Rightarrow> emit (CallRejected c e) st)"

text \<open>
  \<open>call\<close> after its \<open>await this.waitUntilReady()\<close>: take the next correlation id,
  register the pending request, send the command. The request timer is the event
  \<open>on_request_timeout\<close> below.
\<close>

definition register_call :: "caller \<Rightarrow> command \<Rightarrow> ws_state \<Rightarrow> ws_state" where
  "register_call c cmd st =
     (let i = nextId st;
          st1 = st\<lparr>nextId := i + 1, pending := AList.update i c (pending st)\<rparr>
      in sendRaw (CommandMsg i cmd) st1)"

definition call :: "caller \<Rightarrow> command \<Rightarrow> ws_state \<Rightarrow> ws_state" where
  "call c cmd st =
     (case readyPromise st of
        Pending \<Rightarrow> st\<lparr>readyWaiters := readyWaiters st @ [(c, cmd)]\<rparr>
      | Resolved \<Rightarrow> register_call c cmd st
      | Rejected e \<Rightarrow> reject_call c e st)"

definition subscribe_events_cmd :: command where
  "subscribe_events_cmd = Command ''subscribe_events'' (Some ''state_changed'')"

definition activateStateSubscription :: "ws_state \<Rightarrow> ws_state" where
  "activateStateSubscription st =
     (if stateSubscriptionActive st then st
      else call ActivateSub subscribe_events_cmd st)"

text \<open>
  \<open>setReady\<close> and \<open>rejectReady\<close> settle the current ready promise (a promise settles
  once) and resume the calls suspended on it, in the order they suspended. The
  constructor and the close handler create the ready promise without a handler, so
  the suspended calls are the only handlers it ever has: rejecting it while no call is
  suspended on it is an unhandled rejection.
\<close>

definition setReady :: "ws_state \<Rightarrow> ws_state" where
  "setReady st =
     (case readyPromise st of
        Pending \<Rightarrow>
          foldl (\<lambda>s w. register_call (fst w) (snd w) s)
            (st\<lparr>readyPromise := Resolved, readyWaiters := []\<rparr>) (readyWaiters st)
      | Resolved \<Rightarrow> st
      | Rejected e \<Rightarrow> st)"

definition rejectReady :: "error \<Rightarrow> ws_state \<Rightarrow> ws_state" where
  "rejectReady err st =
     (case readyPromise st of
        Pending \<Rightarrow>
          if readyWaiters st = []
          then emit (UnhandledRejection err) (st\<lparr>readyPromise := Rejected err\<rparr>)
          else foldl (\<lambda>s w. reject_call (fst w) err s)
                 (st\<lparr>readyPromise := Rejected err, readyWaiters := []\<rparr>) (readyWaiters st)
      | Resolved \<Rightarrow> st
      | Rejected e \<Rightarrow> st)"

definition settle_connect :: "promise_state \<Rightarrow> ws_state \<Rightarrow> ws_state" where
  "settle_connect r st =
     (case connectPromise st of
        Pending \<Rightarrow> st\<lparr>connectPromise := r\<rparr>
      | Resolved \<Rightarrow> st
      | Rejected e \<Rightarrow> st)"

text \<open>\<open>this.socket?.close()\<close>: an existing socket that is not yet closed starts closing.\<close>

definition socket_close :: "ws_state \<Rightarrow> ws_state" where
  "socket_close st =
     (case socket st of
        None \<Rightarrow> st
      | Some r \<Rightarrow> st\<lparr>socket := Some (if r = CLOSED then CLOSED else CLOSING)\<rparr>)"

text \<open>\<open>connect\<close>: a new socket, a new promise, the 10 s connection timer.\<close>

definition connect :: "ws_state \<Rightarrow> ws_state" where
  "connect st = st\<lparr>socket := Some CONNECTING, connectPromise := Pending, connectionTimeout := True\<rparr>"

definition disconnect :: "ws_state \<Rightarrow> ws_state" where
  "disconnect st =
     (socket_close (st\<lparr>reconnectTimeout := False\<rparr>))
       \<lparr>socket := None, isConnected := False, stateSubscriptionActive := False\<rparr>"

text \<open>\<open>handleStateChanged\<close>: the loop over the subscriptions, in insertion order.\<close>

fun dispatch ::
  "subscription list \<Rightarrow> string \<Rightarrow> ha_state option \<Rightarrow> ha_state option \<Rightarrow> effect list" where
  "dispatch [] eid new old = []"
| "dispatch (sub # rest) eid new old =
     (if entityIds sub = [] \<or> eid \<in> set (entityIds sub) then invoke sub eid new old else [])
       @ dispatch rest eid new old"

definition handleStateChanged :: "state_changed_data \<Rightarrow> ws_state \<Rightarrow> effect list" where
  "handleStateChanged d st = dispatch (subscriptions st) (ev_entity_id d) (new_state d) (old_state d)"

text \<open>
  The handlers \<open>connect\<close> installs on the socket, and the timers. The socket library
  moves the ready state before it emits \<open>open\<close> and \<open>close\<close>, and a socket that was
  asked to close emits \<open>close\<close> later. The handlers stay installed on a socket that
  \<open>disconnect\<close> dropped, so its events still reach them. The model keeps one
  connection attempt and one connection timer at a time.
\<close>

definition on_open :: "ws_state \<Rightarrow> ws_state" where
  "on_open st = st\<lparr>socket := map_option (\<lambda>r. OPEN) (socket st)\<rparr>"

text \<open>\<open>parsed.message || 'Unknown auth error'\<close>: a missing or empty message is falsy.\<close>

definition auth_message :: "parsed_msg \<Rightarrow> string" where
  "auth_message p =
     (case msg_message p of
        None \<Rightarrow> ''Unknown auth error''
      | Some m \<Rightarrow> if m = [] then ''Unknown auth error'' else m)"

definition on_auth_invalid :: "parsed_msg \<Rightarrow> ws_state \<Rightarrow> ws_state" where
  "on_auth_invalid p st =
     (let msg = auth_message p;
          st1 = st\<lparr>connectionTimeout := False\<rparr>;
          st2 = socket_close st1;
          st3 = rejectReady (AuthInvalid msg) st2
      in settle_connect (Rejected (AuthInvalid msg)) st3)"

definition on_auth_ok :: "ws_state \<Rightarrow> ws_state" where
  "on_auth_ok st =
     (let st1 = st\<lparr>connectionTimeout := False, isConnected := True\<rparr>;
          st2 = setReady st1;
          st3 = settle_connect Resolved st2
      in if subscriptions st3 \<noteq> [] then activateStateSubscription st3 else st3)"

definition on_message :: "raw_frame \<Rightarrow> ws_state \<Rightarrow> ws_state" where
  "on_message raw st =
     (case raw of
        Malformed \<Rightarrow> st
      | Json p \<Rightarrow>
          if msg_type p = ''auth_required'' then sendRaw (AuthMsg (token st)) st
          else if msg_type p = ''auth_invalid'' then on_auth_invalid p st
          else if msg_type p = ''auth_ok'' then on_auth_ok st
          else
            (case (case msg_id p of None \<Rightarrow> None
                   | Some i \<Rightarrow> map_option (\<lambda>c. (i, c)) (map_of (pending st) i)) of
               Some (i, c) \<Rightarrow> resolve_call c i p (st\<lparr>pending := AList.delete i (pending st)\<rparr>)
             | None \<Rightarrow>
                 (case msg_event p of
                    None \<Rightarrow> st
                  | Some ev \<Rightarrow>
                      if msg_type p = ''event'' \<and> event_type ev = ''state_changed''
                      then st\<lparr>effects := effects st @ handleStateChanged (event_data ev) st\<rparr>
                      else st)))"

definition on_error :: "string \<Rightarrow> ws_state \<Rightarrow> ws_state" where
  "on_error err st =
     (if isConnected st then st
      else settle_connect (Rejected (SocketFailure err)) (st\<lparr>connectionTimeout := False\<rparr>))"

text \<open>
  The close handler. The calls still suspended on the old ready promise are left
  behind with it: the handler installs a fresh promise and the old one never settles.
\<close>

definition on_close :: "ws_state \<Rightarrow> ws_state" where
  "on_close st =
     (let st1 = st\<lparr>socket := map_option (\<lambda>r. CLOSED) (socket st),
                    isConnected := False, stateSubscriptionActive := False\<rparr>;
          st2 = foldl (\<lambda>s p. reject_call (snd p) ConnectionClosed s) st1 (pending st1)
      in st2\<lparr>pending := [], readyPromise := Pending, readyWaiters := [],
              reconnectTimeout := True\<rparr>)"

definition on_connection_timeout :: "ws_state \<Rightarrow> ws_state" where
  "on_connection_timeout st =
     (if connectionTimeout st then
        (if isConnected st then st\<lparr>connectionTimeout := False\<rparr>
         else settle_connect (Rejected ConnectionTimeout)
                (socket_close (st\<lparr>connectionTimeout := False\<rparr>)))
      else st)"

definition on_reconnect_timeout :: "ws_state \<Rightarrow> ws_state" where
  "on_reconnect_timeout st =
     (if reconnectTimeout st then connect (st\<lparr>reconnectTimeout := False\<rparr>) else st)"

definition on_request_timeout :: "nat \<Rightarrow> ws_state \<Rightarrow> ws_state" where
  "on_request_timeout i st =
     (case map_of (pending st) i of
        None \<Rightarrow> st
      | Some c \<Rightarrow> reject_call c RequestTimedOut (st\<lparr>pending := AList.delete i (pending st)\<rparr>))"

text \<open>Everything that can happen to a transport, as one step function.\<close>

datatype ws_event =
    SocketOpen
  | SocketMessage raw_frame
  | SocketError string
  | SocketClose
  | ConnectionTimerFired
  | ReconnectTimerFired
  | RequestTimerFired nat
  | DoConnect
  | DoDisconnect
  | DoCall nat command

fun ws_step :: "ws_state \<Rightarrow> ws_event \<Rightarrow> ws_state" where
  "ws_step st SocketOpen = on_open st"
| "ws_step st (SocketMessage raw) = on_message raw st"
| "ws_step st (SocketError err) = on_error err st"
| "ws_step st SocketClose = on_close st"
| "ws_step st ConnectionTimerFired = on_connection_timeout st"
| "ws_step st ReconnectTimerFired = on_reconnect_timeout st"
| "ws_step st (RequestTimerFired i) = on_request_timeout i st"
| "ws_step st DoConnect = connect st"
| "ws_step st DoDisconnect = disconnect st"
| "ws_step st (DoCall n cmd) = call (External n) cmd st"

definition ws_run :: "ws_state \<Rightarrow> ws_event list \<Rightarrow> ws_state" where
  "ws_run st evs = foldl ws_step st evs"

text \<open>
  The process that holds the transport. No handler for unhandled rejections or
  uncaught exceptions is installed anywhere, so the runtime ends the process when a
  turn of the event loop leaves a promise rejected without a handler. A turn is the
  list of events handled in it, one after the other, before the runtime looks at the
  rejections.
\<close>

fun unhandled_rejections :: "effect list \<Rightarrow> error list" where
  "unhandled_rejections [] = []"
| "unhandled_rejections (UnhandledRejection e # es) = e # unhandled_rejections es"
| "unhandled_rejections (_ # es) = unhandled_rejections es"

definition terminated :: "ws_state \<Rightarrow> bool" where
  "terminated st = (unhandled_rejections (effects st) \<noteq> [])"




text \<open>\<open>subscribeToStateChanges\<close> with the fresh uuid as a parameter, and \<open>unsubscribe\<close>.\<close>

definition subscribeToStateChanges ::
  "string \<Rightarrow> string list \<Rightarrow> (string \<Rightarrow> ha_state option \<Rightarrow> ha_state option \<Rightarrow> cb_result) \<Rightarrow>
   ws_state \<Rightarrow> ws_state" where
  "subscribeToStateChanges sid ids cb st =
     (let sub = \<lparr>sub_id = sid, entityIds = new_Set ids, callback = cb\<rparr>;
          subs = (if sid \<in> sub_id ` set (subscriptions st)
                  then map (\<lambda>s. if sub_id s = sid then sub else s) (subscriptions st)
                  else subscriptions st @ [sub]);
          st1 = st\<lparr>subscriptions := subs\<rparr>
      in if stateSubscriptionActive st1 then st1 else activateStateSubscription st1)"

definition unsubscribe :: "string \<Rightarrow> ws_state \<Rightarrow> ws_state" where
  "unsubscribe sid st = st\<lparr>subscriptions := filter (\<lambda>s. sub_id s \<noteq> sid) (subscriptions st)\<rparr>"

text \<open>
  The state queries, as functions of how the promise of their \<open>call\<close> settles: none of
  them has a try block.
\<close>

datatype call_outcome = Rejects error | Resolves parsed_msg

definition getAllStates_ws :: "call_outcome \<Rightarrow> error + ha_state list" where
  "getAllStates_ws r =
     (case r of
        Rejects e \<Rightarrow> Inl e
      | Resolves response \<Rightarrow>
          if msg_type response = ''result'' \<and> msg_success response
          then Inr (case msg_result response of None \<Rightarrow> [] | Some ss \<Rightarrow> ss)
          else Inr [])"

definition getStates_ws :: "call_outcome \<Rightarrow> string list \<Rightarrow> error + (string \<times> ha_state) list" where
  "getStates_ws r entityIds' =
     (case getAllStates_ws r of
        Inl e \<Rightarrow> Inl e
      | Inr allStates \<Rightarrow> Inr (getStates_loop (new_Set entityIds') allStates []))"

definition getState_ws :: "call_outcome \<Rightarrow> string \<Rightarrow> error + ha_state option" where
  "getState_ws r entityId =
     (case getStates_ws r [entityId] of
        Inl e \<Rightarrow> Inl e
      | Inr states \<Rightarrow> Inr (map_of states entityId))"

section \<open>createReadTransport\<close>

record factory_options =
  wsConnectionTimeout :: nat
  preferWebSocket :: bool
  restPollingInterval :: nat

text \<open>
  \<open>Promise.race\<close> between \<open>wsTransport.connect()\<close> and the selector's timer, over the
  turns of the event loop that reach the new transport before the timer fires. After
  each turn: the process has ended, or the connect promise has settled and the race
  with it, or the race goes on. When the turns run out the timer fires and rejects
  the race with the timeout error.
\<close>

datatype race_result =
    RaceConnected ws_state
  | RaceRejected error ws_state
  | RaceTerminated

fun race :: "ws_state \<Rightarrow> ws_event list list \<Rightarrow> race_result" where
  "race st [] = RaceRejected ConnectionTimeout st"
| "race st (turn # turns) =
     (if terminated (ws_run st turn) then RaceTerminated
      else (case connectPromise (ws_run st turn) of
              Pending \<Rightarrow> race (ws_run st turn) turns
            | Resolved \<Rightarrow> RaceConnected (ws_run st turn)
            | Rejected err \<Rightarrow> RaceRejected err (ws_run st turn)))"

text \<open>
  What the factory does not decide itself: the environment variable, the token of the
  configuration, what reaches the streaming transport during the race, and the REST
  endpoints.
\<close>

record factory_env =
  forceRest :: bool
  config_token :: string
  ws_turns :: "ws_event list list"
  rest_up :: rest_upstream

datatype active_transport = Websocket | Rest

record transport_choice =
  activeTransport :: active_transport
  wsAvailable :: bool
  restAvailable :: bool

text \<open>How a call of the factory ends: it returns, it throws, or the process ends first.\<close>

datatype 'a completion = Returns 'a | Throws error | ProcessTerminated

text \<open>
  A run of the factory: how it ends, and the streaming transport object it created,
  as it leaves it (\<open>None\<close> when none was created or the process ended).
\<close>

record factory_run =
  outcome :: "transport_choice completion"
  ws_final :: "ws_state option"

definition testRestConnection :: "rest_upstream \<Rightarrow> bool" where
  "testRestConnection up =
     (case get_root up of
        NetworkError e \<Rightarrow> False
      | Response status txt _ \<Rightarrow> res_ok status)"

definition rest_fallback :: "factory_env \<Rightarrow> ws_state option \<Rightarrow> factory_run" where
  "rest_fallback env ws =
     (case connect_rest (rest_up env) of
        Inr ok \<Rightarrow>
          \<lparr>outcome = Returns \<lparr>activeTransport = Rest, wsAvailable = False, restAvailable = True\<rparr>,
           ws_final = ws\<rparr>
      | Inl err \<Rightarrow> \<lparr>outcome = Throws NoTransport, ws_final = ws\<rparr>)"

definition createReadTransport :: "factory_options \<Rightarrow> factory_env \<Rightarrow> factory_run" where
  "createReadTransport opts env =
     (if preferWebSocket opts \<and> \<not> forceRest env then
        (case race (connect (ws_init (config_token env))) (ws_turns env) of
           RaceConnected st \<Rightarrow>
             \<lparr>outcome = Returns \<lparr>activeTransport = Websocket, wsAvailable = True,
                                  restAvailable = testRestConnection (rest_up env)\<rparr>,
              ws_final = Some st\<rparr>
         | RaceRejected err st \<Rightarrow> rest_fallback env (Some (disconnect st))
         | RaceTerminated \<Rightarrow> \<lparr>outcome = ProcessTerminated, ws_final = None\<rparr>)
      else rest_fallback env None)"

section \<open>The live fan-out server\<close>

datatype server_msg =
    StateUpdate string string "(string \<times> string) list" nat
  | Subscribed string string "string list"
      "(string \<times> string \<times> (string \<times> string) list) list option" bool
  | Warning string string string
  | ErrorMsg string

datatype fanout_effect = SendAttempt nat server_msg | SendErrorLogged nat

text \<open>
  An entry of the \<open>clients\<close> map; the key is the session's socket, here a number. The
  subscription id is the device id with the time of the request.
\<close>

record client_subscription =
  deviceId :: string
  profileId :: string
  client_entityIds :: "string list"
  subscriptionId :: "string \<times> nat"

text \<open>
  What the server reads from outside: the ready state of each session socket, whether
  a \<open>send\<close> on it throws, and the clock.
\<close>

record socket_env =
  readyStateOf :: "nat \<Rightarrow> ready_state"
  sendThrows :: "nat \<Rightarrow> bool"
  now :: nat

definition ws_send :: "socket_env \<Rightarrow> nat \<Rightarrow> server_msg \<Rightarrow> fanout_effect list" where
  "ws_send env ws m =
     (if sendThrows env ws then [SendAttempt ws m, SendErrorLogged ws] else [SendAttempt ws m])"

text \<open>The callback the server registers with the transport, for all entities.\<close>

fun broadcast_loop ::
  "socket_env \<Rightarrow> (nat \<times> client_subscription) list \<Rightarrow> string \<Rightarrow> ha_state \<Rightarrow> fanout_effect list" where
  "broadcast_loop env [] entityId newState = []"
| "broadcast_loop env ((clientWs, sub) # rest) entityId newState =
     (if entityId \<in> set (client_entityIds sub) \<and> readyStateOf env clientWs = OPEN
      then ws_send env clientWs
             (StateUpdate entityId (state newState) (attributes newState) (now env))
      else [])
       @ broadcast_loop env rest entityId newState"

definition broadcast ::
  "socket_env \<Rightarrow> (nat \<times> client_subscription) list \<Rightarrow> string \<Rightarrow> ha_state option \<Rightarrow>
   ha_state option \<Rightarrow> fanout_effect list" where
  "broadcast env clients entityId newState oldState =
     (if entityId = [] then []
      else case newState of
             None \<Rightarrow> []
           | Some n \<Rightarrow> broadcast_loop env clients entityId n)"

text \<open>What the server sent, or tried to send, to one session.\<close>

fun sent_to :: "nat \<Rightarrow> fanout_effect list \<Rightarrow> server_msg list" where
  "sent_to ws [] = []"
| "sent_to ws (SendAttempt w m # es) = (if w = ws then m # sent_to ws es else sent_to ws es)"
| "sent_to ws (SendErrorLogged w # es) = sent_to ws es"

text \<open>
  A subscribe request. A missing string field is the empty string (both are falsy).
  \<open>entityMappings\<close> is missing, a string with the result of parsing it as JSON, or an
  object.
\<close>

type_synonym mappings = "(string \<times> string) list"

datatype mappings_field =
    MappingsAbsent
  | MappingsString string "mappings option"
  | MappingsObject mappings

record subscribe_request =
  req_deviceId :: string
  req_profileId :: string
  entityNamePrefix :: string
  entityMappings :: mappings_field

text \<open>
  The collaborators of the subscribe handler: the profile loader, the device mapping
  storage, the entity resolution over the profile's entity map (device mapping first,
  legacy resolution second; it gives the set of resolved ids, or throws), and the
  transport's bulk state fetch.
\<close>

record 'p collaborators =
  getProfileById :: "string \<Rightarrow> 'p option"
  hasMapping :: "string \<Rightarrow> bool"
  resolveEntityIds :: "string \<Rightarrow> 'p \<Rightarrow> string \<Rightarrow> mappings option \<Rightarrow> bool \<Rightarrow> error + string list"
  getStates :: "string list \<Rightarrow> error + (string \<times> ha_state) list"

text \<open>
  The two \<open>replace\<close> calls that derive an entity name prefix from a device id: one of
  three domains is cut off the front, one of two suffixes off the end.
\<close>

definition strip_domain :: "string \<Rightarrow> string" where
  "strip_domain s =
     (if prefix ''sensor.'' s then drop (length ''sensor.'') s
      else if prefix ''binary_sensor.'' s then drop (length ''binary_sensor.'') s
      else if prefix ''number.'' s then drop (length ''number.'') s
      else s)"

definition strip_entity_suffix :: "string \<Rightarrow> string" where
  "strip_entity_suffix s =
     (if suffix ''_occupancy'' s then take (length s - length ''_occupancy'') s
      else if suffix ''_mmwave_target_distance'' s
      then take (length s - length ''_mmwave_target_distance'') s
      else s)"

definition deviceNameOf :: "subscribe_request \<Rightarrow> string" where
  "deviceNameOf r =
     (if entityNamePrefix r \<noteq> [] then entityNamePrefix r
      else strip_entity_suffix (strip_domain (req_deviceId r)))"

definition parseMappings :: "mappings_field \<Rightarrow> mappings option" where
  "parseMappings f =
     (case f of
        MappingsAbsent \<Rightarrow> None
      | MappingsString txt parsed \<Rightarrow> if txt = [] then None else parsed
      | MappingsObject m \<Rightarrow> Some m)"

definition initialStateData ::
  "(string \<times> ha_state) list \<Rightarrow> (string \<times> string \<times> (string \<times> string) list) list" where
  "initialStateData states = map (\<lambda>(entityId, s). (entityId, state s, attributes s)) states"

text \<open>
  Whether a subscribe request gets past the three early returns of the handler.
\<close>

definition passes_validation :: "'p collaborators \<Rightarrow> subscribe_request \<Rightarrow> bool" where
  "passes_validation co r =
     (req_deviceId r \<noteq> [] \<and> req_profileId r \<noteq> [] \<and>
      getProfileById co (req_profileId r) \<noteq> None \<and> deviceNameOf r \<noteq> [])"

text \<open>The warning sent when neither a device mapping nor legacy mappings exist.\<close>

definition mappingWarning :: "nat \<Rightarrow> string \<Rightarrow> bool \<Rightarrow> fanout_effect list" where
  "mappingWarning ws dev hasMappings =
     (if hasMappings then []
      else [SendAttempt ws
              (Warning ''MAPPING_NOT_FOUND''
                 ''No entity mappings found for this device. Run entity discovery to auto-match entities.''
                 dev)])"

text \<open>
  The inner try block of the subscribe branch: the bulk fetch of the initial states
  and the confirmation, and its catch block: the confirmation without them.
\<close>

definition sendSubscribed ::
  "'p collaborators \<Rightarrow> nat \<Rightarrow> subscribe_request \<Rightarrow> string list \<Rightarrow> bool \<Rightarrow> fanout_effect list" where
  "sendSubscribed co ws r entityIds' hasMappings =
     (case getStates co entityIds' of
        Inr initialStates \<Rightarrow>
          [SendAttempt ws
             (Subscribed (req_deviceId r) (req_profileId r) entityIds'
                (Some (initialStateData initialStates)) hasMappings)]
      | Inl err \<Rightarrow>
          [SendAttempt ws
             (Subscribed (req_deviceId r) (req_profileId r) entityIds' None hasMappings)])"

text \<open>
  The subscribe branch after its three early returns: the mappings, the warning, the
  entity resolution, the entry in the clients map, the confirmation. An exception of
  the resolution reaches the outer catch of the message handler.
\<close>

definition admitSession ::
  "'p collaborators \<Rightarrow> socket_env \<Rightarrow> nat \<Rightarrow> subscribe_request \<Rightarrow> 'p \<Rightarrow>
   (nat \<times> client_subscription) list \<Rightarrow> (nat \<times> client_subscription) list \<times> fanout_effect list" where
  "admitSession co env ws r profile clients =
     (let parsedMappings = parseMappings (entityMappings r);
          hasDeviceMapping = hasMapping co (req_deviceId r);
          hasMappings = (hasDeviceMapping \<or> parsedMappings \<noteq> None);
          warned = mappingWarning ws (req_deviceId r) hasMappings
      in (case resolveEntityIds co (req_deviceId r) profile (deviceNameOf r)
                 parsedMappings hasDeviceMapping of
            Inl err \<Rightarrow> (clients, warned @ [SendAttempt ws (ErrorMsg ''Invalid message format'')])
          | Inr entityIds' \<Rightarrow>
              (AList.update ws
                 \<lparr>deviceId = req_deviceId r, profileId = req_profileId r,
                  client_entityIds = entityIds',
                  subscriptionId = (req_deviceId r, now env)\<rparr> clients,
               warned @ sendSubscribed co ws r entityIds' hasMappings)))"

definition handleSubscribe ::
  "'p collaborators \<Rightarrow> socket_env \<Rightarrow> nat \<Rightarrow> subscribe_request \<Rightarrow>
   (nat \<times> client_subscription) list \<Rightarrow> (nat \<times> client_subscription) list \<times> fanout_effect list" where
  "handleSubscribe co env ws r clients =
     (if req_deviceId r = [] \<or> req_profileId r = []
      then (clients, [SendAttempt ws (ErrorMsg ''deviceId and profileId required'')])
      else (case getProfileById co (req_profileId r) of
              None \<Rightarrow> (clients, [SendAttempt ws (ErrorMsg ''Profile not found'')])
            | Some profile \<Rightarrow>
                if deviceNameOf r = []
                then (clients,
                      [SendAttempt ws (ErrorMsg ''Could not determine entity name prefix'')])
                else admitSession co env ws r profile clients))"

section \<open>Reading traces and results\<close>

text \<open>The callbacks one subscription receives for one entity, read off a trace.\<close>

fun callbacks_for :: "string \<Rightarrow> string \<Rightarrow> effect list \<Rightarrow> effect list" where
  "callbacks_for sid eid [] = []"
| "callbacks_for sid eid (Invoked s e new old # es) =
     (if s = sid \<and> e = eid then Invoked s e new old # callbacks_for sid eid es
      else callbacks_for sid eid es)"
| "callbacks_for sid eid (_ # es) = callbacks_for sid eid es"

text \<open>The rejected calls of a trace, with their errors.\<close>

fun rejections :: "effect list \<Rightarrow> (caller \<times> error) list" where
  "rejections [] = []"
| "rejections (CallRejected c e # es) = (c, e) # rejections es"
| "rejections (_ # es) = rejections es"

text \<open>What rejecting the promise of a call adds to the trace.\<close>

definition reject_trace :: "caller \<Rightarrow> error \<Rightarrow> effect list" where
  "reject_trace c e =
     (case c of
        ActivateSub \<Rightarrow> [CallRejected c e, SubscribeFailedLogged e]
      | External n \<Rightarrow> [CallRejected c e])"

text \<open>
  The result of a bulk fetch for the ids \<open>E\<close> against an upstream list: its keys are
  the ids of \<open>E\<close> that occur upstream, each once, and each entry is an upstream state
  under its own id.
\<close>

definition exactly_existing_subset ::
  "string list \<Rightarrow> ha_state list \<Rightarrow> (string \<times> ha_state) list \<Rightarrow> bool" where
  "exactly_existing_subset E upstream m =
     (fst ` set m = set E \<inter> entity_id ` set upstream \<and>
      distinct (map fst m) \<and>
      set m \<subseteq> (\<lambda>s. (entity_id s, s)) ` set upstream)"

text \<open>The callback invocations and the logged callback errors of a trace.\<close>

fun invocations :: "effect list \<Rightarrow> effect list" where
  "invocations [] = []"
| "invocations (Invoked s e new old # es) = Invoked s e new old # invocations es"
| "invocations (_ # es) = invocations es"

fun logged_errors :: "effect list \<Rightarrow> (string \<times> string) list" where
  "logged_errors [] = []"
| "logged_errors (CallbackErrorLogged s err # es) = (s, err) # logged_errors es"
| "logged_errors (_ # es) = logged_errors es"

text \<open>A subscription matches an entity when its filter is empty or contains it.\<close>

definition matches :: "'a subscription_scheme \<Rightarrow> string \<Rightarrow> bool" where
  "matches sub eid = (entityIds sub = [] \<or> eid \<in> set (entityIds sub))"

text \<open>The exception a subscription's callback throws on an invocation, if it throws.\<close>

definition thrown ::
  "'a subscription_scheme \<Rightarrow> string \<Rightarrow> ha_state option \<Rightarrow> ha_state option \<Rightarrow>
   (string \<times> string) list" where
  "thrown sub eid new old =
     (case callback sub eid new old of Returned \<Rightarrow> [] | Threw err \<Rightarrow> [(sub_id sub, err)])"

text \<open>The same subscriptions with other callbacks, chosen by subscription id.\<close>

definition with_callbacks ::
  "(string \<Rightarrow> string \<Rightarrow> ha_state option \<Rightarrow> ha_state option \<Rightarrow> cb_result) \<Rightarrow>
   'a subscription_scheme list \<Rightarrow> 'a subscription_scheme list" where
  "with_callbacks f subs = map (\<lambda>s. s\<lparr>callback := f (sub_id s)\<rparr>) subs"


text \<open>
  The streaming transport a factory run left behind, after further events reach the
  handlers that are still installed on its socket.
\<close>

definition after_factory :: "factory_run \<Rightarrow> ws_event list \<Rightarrow> ws_state option" where
  "after_factory r evs = map_option (\<lambda>st. ws_run st evs) (ws_final r)"

text \<open>
  A poll tick as the subscribers see it. A fetched record fires a subscription when
  the subscription has no last-known record of the entity, or one that differs in the
  state string or in \<open>last_updated\<close>. The invocations of a subscription are those of the
  records that fire, each with the fetched and the last-known record; its logged
  errors are what these invocations throw; its last-known records afterwards are the
  old ones overwritten by every fetched record.
\<close>

definition fires :: "rest_subscription \<Rightarrow> ha_state \<Rightarrow> bool" where
  "fires sub n =
     (case lastStates sub (entity_id n) of
        None \<Rightarrow> True
      | Some old \<Rightarrow> state old \<noteq> state n \<or> last_updated old \<noteq> last_updated n)"

definition tick_invocations :: "rest_subscription \<Rightarrow> ha_state list \<Rightarrow> effect list" where
  "tick_invocations sub ns =
     map (\<lambda>n. Invoked (sub_id sub) (entity_id n) (Some n) (lastStates sub (entity_id n)))
       (filter (fires sub) ns)"

definition tick_errors :: "rest_subscription \<Rightarrow> ha_state list \<Rightarrow> (string \<times> string) list" where
  "tick_errors sub ns =
     concat (map (\<lambda>n. thrown sub (entity_id n) (Some n) (lastStates sub (entity_id n)))
               (filter (fires sub) ns))"

definition tick_lastStates :: "rest_subscription \<Rightarrow> ha_state list \<Rightarrow> rest_subscription" where
  "tick_lastStates sub ns =
     sub\<lparr>lastStates := foldl (\<lambda>m n. m(entity_id n \<mapsto> n)) (lastStates sub) ns\<rparr>"

text \<open>What one fetched record adds to the trace of a subscription.\<close>

definition fire :: "rest_subscription \<Rightarrow> ha_state \<Rightarrow> effect list" where
  "fire sub n =
     (if fires sub n
      then invoke sub (entity_id n) (Some n) (lastStates sub (entity_id n)) else [])"

section \<open>Concrete scenarios\<close>

definition ex_old :: ha_state where
  "ex_old = \<lparr>entity_id = ''sensor.x'', state = ''on'', attributes = [],
             last_changed = ''t1'', last_updated = ''t1''\<rparr>"

text \<open>The same entity after an attribute-only update, and with only \<open>last_changed\<close> moved.\<close>

definition ex_new_updated :: ha_state where
  "ex_new_updated = ex_old\<lparr>last_updated := ''t2''\<rparr>"

definition ex_new_changed :: ha_state where
  "ex_new_changed = ex_old\<lparr>last_changed := ''t2''\<rparr>"

definition ex_sub :: rest_subscription where
  "ex_sub = \<lparr>sub_id = ''s1'', entityIds = [''sensor.x''], callback = (\<lambda>e n oldS. Returned),
              lastStates = [''sensor.x'' \<mapsto> ex_old]\<rparr>"

definition ex_up :: "ha_state list \<Rightarrow> rest_upstream" where
  "ex_up upstream =
     \<lparr>get_root = Response 200 [] (Some ()),
      get_state = (\<lambda>e. if e = ''sensor.x'' then Response 200 [] (Some ex_old)
                       else Response 404 [] None),
      get_states = Response 200 [] (Some upstream)\<rparr>"

definition plain_frame :: "string \<Rightarrow> parsed_msg" where
  "plain_frame ty =
     \<lparr>msg_type = ty, msg_id = None, msg_message = None, msg_success = False,
      msg_result = None, msg_event = None\<rparr>"

definition result_frame :: "nat \<Rightarrow> ha_state list \<Rightarrow> parsed_msg" where
  "result_frame i upstream =
     \<lparr>msg_type = ''result'', msg_id = Some i, msg_message = None, msg_success = True,
      msg_result = Some upstream, msg_event = None\<rparr>"

text \<open>A first connection with its handshake, then one bulk query.\<close>

definition handshake :: "ws_event list" where
  "handshake = [DoConnect, SocketOpen, SocketMessage (Json (plain_frame ''auth_required'')),
                SocketMessage (Json (plain_frame ''auth_ok''))]"

definition ex_connected_one_call :: ws_state where
  "ex_connected_one_call =
     ws_run (ws_init ''tok'') (handshake @ [DoCall 0 (Command ''get_states'' None)])"

text \<open>A state-change event frame; the platform tags it with the id of the subscribe command.\<close>

definition state_changed_frame ::
  "nat \<Rightarrow> string \<Rightarrow> ha_state option \<Rightarrow> ha_state option \<Rightarrow> parsed_msg" where
  "state_changed_frame i eid oldS newS =
     \<lparr>msg_type = ''event'', msg_id = Some i, msg_message = None, msg_success = False,
      msg_result = None,
      msg_event = Some \<lparr>event_type = ''state_changed'',
                        event_data = \<lparr>ev_entity_id = eid, old_state = oldS, new_state = newS\<rparr>\<rparr>\<rparr>"




definition ex_ws_sub :: subscription where
  "ex_ws_sub = \<lparr>sub_id = ''s1'', entityIds = [], callback = (\<lambda>e n oldS. Returned)\<rparr>"


text \<open>
  Subscriptions whose callback always throws: one of the streaming transport, and one
  of the polling transport that wants every entity and has seen none yet.
\<close>

definition ex_throwing_sub :: subscription where
  "ex_throwing_sub = \<lparr>sub_id = ''s0'', entityIds = [], callback = (\<lambda>e n oldS. Threw ''boom'')\<rparr>"

definition ex_throwing_rsub :: rest_subscription where
  "ex_throwing_rsub =
     \<lparr>sub_id = ''s0'', entityIds = [], callback = (\<lambda>e n oldS. Threw ''boom''),
      lastStates = Map.empty\<rparr>"

text \<open>
  Factory runs: the platform refuses the token during the handshake, or it never
  answers the credentials and the selector's timer fires; and a REST endpoint that
  refuses connections.
\<close>

definition ex_opts :: factory_options where
  "ex_opts = \<lparr>wsConnectionTimeout = 5000, preferWebSocket = True, restPollingInterval = 1000\<rparr>"

definition refused_turns :: "ws_event list list" where
  "refused_turns =
     [[SocketOpen], [SocketMessage (Json (plain_frame ''auth_required''))],
      [SocketMessage (Json (plain_frame ''auth_invalid''))]]"

definition stalled_turns :: "ws_event list list" where
  "stalled_turns = [[SocketOpen], [SocketMessage (Json (plain_frame ''auth_required''))]]"

text \<open>The streaming transport when the selector's timer fires in the second run.\<close>

definition ex_stalled :: ws_state where
  "ex_stalled =
     \<lparr>token = ''tok'', nextId = 1, pending = [], subscriptions = [],
      isConnected = False, stateSubscriptionActive = False, socket = Some OPEN,
      readyPromise = Pending, readyWaiters = [], connectPromise = Pending,
      connectionTimeout = True, reconnectTimeout = False,
      outbox = [AuthMsg ''tok''], effects = []\<rparr>"

definition ex_env :: "ws_event list list \<Rightarrow> rest_upstream \<Rightarrow> factory_env" where
  "ex_env turns up = \<lparr>forceRest = False, config_token = ''tok'', ws_turns = turns, rest_up = up\<rparr>"

definition ex_up_down :: rest_upstream where
  "ex_up_down =
     \<lparr>get_root = NetworkError ''ECONNREFUSED'',
      get_state = (\<lambda>e. NetworkError ''ECONNREFUSED''),
      get_states = NetworkError ''ECONNREFUSED''\<rparr>"

text \<open>
  The fan-out scenario: a session for device \<open>abc\<close> with profile \<open>epl\<close>, resolved to two
  entities, on socket 7; every socket is open and the clock reads 42.
\<close>

definition ex_client :: client_subscription where
  "ex_client = \<lparr>deviceId = ''abc'', profileId = ''epl'',
                client_entityIds = [''binary_sensor.abc_occupancy'', ''sensor.abc_target_1_x''],
                subscriptionId = (''abc'', 0)\<rparr>"

definition ex_sockets :: socket_env where
  "ex_sockets = \<lparr>readyStateOf = (\<lambda>w. OPEN), sendThrows = (\<lambda>w. False), now = 42\<rparr>"

definition ex_target_state :: ha_state where
  "ex_target_state = \<lparr>entity_id = ''sensor.abc_target_1_x'', state = ''120'', attributes = [],
             last_changed = ''t1'', last_updated = ''t1''\<rparr>"

definition ex_request :: subscribe_request where
  "ex_request = \<lparr>req_deviceId = ''abc'', req_profileId = ''epl'', entityNamePrefix = [],
                 entityMappings = MappingsAbsent\<rparr>"

text \<open>Collaborators whose bulk state fetch fails with a request timeout.\<close>

definition ex_collaborators :: "unit collaborators" where
  "ex_collaborators =
     \<lparr>getProfileById = (\<lambda>p. if p = ''epl'' then Some () else None),
      hasMapping = (\<lambda>d. d = ''abc''),
      resolveEntityIds =
        (\<lambda>d p n m h. Inr [''binary_sensor.abc_occupancy'', ''sensor.abc_target_1_x'']),
      getStates = (\<lambda>ids. Inl RequestTimedOut)\<rparr>"

section \<open>Properties of the polling transport\<close>

lemma set_foldl_set_add: "set (foldl (\<lambda>acc x. set_add x acc) acc xs) = set acc \<union> set xs"
  by (induction xs arbitrary: acc) (auto simp: set_add_def)

lemma set_new_Set: "set (new_Set xs) = set xs"
  by (simp add: new_Set_def set_foldl_set_add)

lemma update_fresh: "k \<notin> fst ` set al \<Longrightarrow> AList.update k v al = al @ [(k, v)]"
  by (induction al) auto

lemma getStates_loop_distinct:
  "distinct (map entity_id U) \<Longrightarrow> entity_id ` set U \<inter> fst ` set acc = {} \<Longrightarrow>
   getStates_loop ids U acc =
     acc @ map (\<lambda>s. (entity_id s, s)) (filter (\<lambda>s. entity_id s \<in> set ids) U)"
proof (induction U arbitrary: acc)
  case Nil
  then show ?case by simp
next
  case (Cons s U)
  have fresh: "entity_id s \<notin> fst ` set acc" using Cons.prems(2) by auto
  show ?case
  proof (cases "entity_id s \<in> set ids")
    case True
    have "entity_id ` set U \<inter> fst ` set (acc @ [(entity_id s, s)]) = {}"
      using Cons.prems by auto
    with Cons True fresh show ?thesis by (simp add: update_fresh)
  next
    case False
    with Cons show ?thesis by auto
  qed
qed

lemma collect_wants_all:
  "sub \<in> set subs \<Longrightarrow> entityIds sub = [] \<Longrightarrow> collectEntityIds subs acc = []"
  by (induction subs arbitrary: acc) auto

lemma collect_keeps_acc:
  "collectEntityIds subs acc \<noteq> [] \<Longrightarrow> set acc \<subseteq> set (collectEntityIds subs acc)"
proof (induction subs arbitrary: acc)
  case Nil
  then show ?case by simp
next
  case (Cons s subs)
  from Cons.prems have ne: "entityIds s \<noteq> []"
    and ne2: "collectEntityIds subs (foldl (\<lambda>acc x. set_add x acc) acc (entityIds s)) \<noteq> []"
    by (auto split: if_splits)
  from Cons.IH[OF ne2]
  have "set acc \<subseteq> set (collectEntityIds subs (foldl (\<lambda>acc x. set_add x acc) acc (entityIds s)))"
    by (simp add: set_foldl_set_add)
  with ne show ?case by simp
qed

lemma collect_covers:
  "sub \<in> set subs \<Longrightarrow> collectEntityIds subs acc \<noteq> [] \<Longrightarrow>
   set (entityIds sub) \<subseteq> set (collectEntityIds subs acc)"
proof (induction subs arbitrary: acc)
  case Nil
  then show ?case by simp
next
  case (Cons s subs)
  show ?case
  proof (cases "sub = s")
    case True
    with Cons.prems(2)
    have ne: "collectEntityIds subs (foldl (\<lambda>acc x. set_add x acc) acc (entityIds s)) \<noteq> []"
      by (auto split: if_splits)
    from collect_keeps_acc[OF ne] True Cons.prems(2) show ?thesis
      by (auto simp: set_foldl_set_add split: if_splits)
  next
    case False
    with Cons show ?thesis by (auto split: if_splits)
  qed
qed

lemma invoke_callbacks_for:
  "callbacks_for sid X (invoke sub e new old) =
     (if sub_id sub = sid \<and> e = X then [Invoked sid X new old] else [])"
  by (auto simp: invoke_def split: cb_result.splits)

lemma callbacks_for_append:
  "callbacks_for sid X (es @ fs) = callbacks_for sid X es @ callbacks_for sid X fs"
  by (induction sid X es rule: callbacks_for.induct) auto

lemma checkStates_sub_id: "sub_id (fst (checkStates sub ns)) = sub_id sub"
  by (induction ns arbitrary: sub) (auto simp: Let_def)

lemma checkStates_other_sub:
  "sub_id sub \<noteq> sid \<Longrightarrow> callbacks_for sid X (snd (checkStates sub ns)) = []"
  by (induction ns arbitrary: sub)
     (auto simp: Let_def callbacks_for_append invoke_callbacks_for split: option.splits)

lemma checkStates_absent:
  "X \<notin> entity_id ` set ns \<Longrightarrow>
   callbacks_for sid X (snd (checkStates sub ns)) = [] \<and>
   lastStates (fst (checkStates sub ns)) X = lastStates sub X"
  by (induction ns arbitrary: sub)
     (auto simp: Let_def callbacks_for_append invoke_callbacks_for split: option.splits)

lemma checkStates_present:
  "distinct (map entity_id ns) \<Longrightarrow> n \<in> set ns \<Longrightarrow>
   callbacks_for (sub_id sub) (entity_id n) (snd (checkStates sub ns)) =
     (case lastStates sub (entity_id n) of
        None \<Rightarrow> [Invoked (sub_id sub) (entity_id n) (Some n) None]
      | Some old \<Rightarrow> if stateChanged old n
                    then [Invoked (sub_id sub) (entity_id n) (Some n) (Some old)] else []) \<and>
   lastStates (fst (checkStates sub ns)) (entity_id n) = Some n"
proof (induction ns arbitrary: sub)
  case Nil
  then show ?case by simp
next
  case (Cons m ns)
  let ?sub' = "sub\<lparr>lastStates := (lastStates sub)(entity_id m \<mapsto> m)\<rparr>"
  show ?case
  proof (cases "n = m")
    case True
    from Cons.prems(1) True have "entity_id n \<notin> entity_id ` set ns" by auto
    from checkStates_absent[OF this, of "sub_id sub" ?sub'] True
    show ?thesis
      by (auto simp: Let_def callbacks_for_append invoke_callbacks_for split: option.splits)
  next
    case False
    with Cons.prems have n: "n \<in> set ns" and d: "distinct (map entity_id ns)"
      and ne: "entity_id m \<noteq> entity_id n" by auto
    from Cons.IH[OF d n, of ?sub'] ne show ?thesis
      by (auto simp: Let_def callbacks_for_append invoke_callbacks_for split: option.splits)
  qed
qed

lemma checkSubscriptions_fst:
  "fst (checkSubscriptions subs states) =
     map (\<lambda>sub. fst (checkStates sub (relevantStates sub states))) subs"
  by (induction subs) (auto simp: Let_def)

lemma checkSubscriptions_other:
  "sid \<notin> sub_id ` set subs \<Longrightarrow> callbacks_for sid X (snd (checkSubscriptions subs states)) = []"
  by (induction subs) (auto simp: Let_def callbacks_for_append checkStates_other_sub)

lemma checkSubscriptions_callbacks:
  "distinct (map sub_id subs) \<Longrightarrow> sub \<in> set subs \<Longrightarrow>
   callbacks_for (sub_id sub) X (snd (checkSubscriptions subs states)) =
   callbacks_for (sub_id sub) X (snd (checkStates sub (relevantStates sub states)))"
proof (induction subs)
  case Nil
  then show ?case by simp
next
  case (Cons s subs)
  show ?case
  proof (cases "sub = s")
    case True
    with Cons.prems have "sub_id sub \<notin> sub_id ` set subs" by auto
    from checkSubscriptions_other[OF this] True show ?thesis
      by (simp add: Let_def callbacks_for_append)
  next
    case False
    with Cons.prems have "sub \<in> set subs" "sub_id s \<noteq> sub_id sub" "distinct (map sub_id subs)"
      by auto
    with Cons.IH show ?thesis
      by (simp add: Let_def callbacks_for_append checkStates_other_sub)
  qed
qed

lemma poll_states_fetched:
  assumes "sub \<in> set subs"
    and "entityIds sub = [] \<or> X \<in> set (entityIds sub)"
    and "distinct (map entity_id (getAllStates_rest up))"
    and "new \<in> set (getAllStates_rest up)" and "entity_id new = X"
  defines "allEntityIds \<equiv> collectEntityIds subs []"
  defines "states \<equiv> (if allEntityIds = [] then getAllStates_rest up
                      else map snd (getStates_rest up allEntityIds))"
  shows "distinct (map entity_id (relevantStates sub states)) \<and>
         new \<in> set (relevantStates sub states)"
proof (cases "allEntityIds = []")
  case True
  then have "states = getAllStates_rest up" by (simp add: states_def)
  with assms(2-5) show ?thesis
    by (auto simp: relevantStates_def distinct_map_filter)
next
  case False
  with collect_wants_all[OF assms(1), of "[]"] have ne: "entityIds sub \<noteq> []"
    by (auto simp: allEntityIds_def)
  with assms(2) have X: "X \<in> set (entityIds sub)" by simp
  from collect_covers[OF assms(1), of "[]"] False X have Xall: "X \<in> set allEntityIds"
    by (auto simp: allEntityIds_def)
  have "states = filter (\<lambda>s. entity_id s \<in> set allEntityIds) (getAllStates_rest up)"
    using False assms(3)
    by (simp add: states_def getStates_rest_def getStates_loop_distinct set_new_Set comp_def)
  with assms(3-5) X Xall ne show ?thesis
    by (auto simp: relevantStates_def distinct_map_filter)
qed

lemma checkStates_entityIds: "entityIds (fst (checkStates sub ns)) = entityIds sub"
  by (induction ns arbitrary: sub) (auto simp: Let_def)

lemma pollStates_sub_ids: "map sub_id (fst (pollStates up subs)) = map sub_id subs"
  by (simp add: pollStates_def Let_def checkSubscriptions_fst checkStates_sub_id comp_def)

lemma poll_tick:
  assumes "sub \<in> set subs" and "distinct (map sub_id subs)"
    and "lastStates sub X = Some old"
    and "entityIds sub = [] \<or> X \<in> set (entityIds sub)"
    and "distinct (map entity_id (getAllStates_rest up))"
    and "new \<in> set (getAllStates_rest up)" and "entity_id new = X"
  shows "callbacks_for (sub_id sub) X (snd (pollStates up subs)) =
           (if stateChanged old new then [Invoked (sub_id sub) X (Some new) (Some old)] else []) \<and>
         (\<exists>sub'. sub' \<in> set (fst (pollStates up subs)) \<and> sub_id sub' = sub_id sub \<and>
            entityIds sub' = entityIds sub \<and> lastStates sub' X = Some new)"
proof -
  define states where "states = (if collectEntityIds subs [] = [] then getAllStates_rest up
                      else map snd (getStates_rest up (collectEntityIds subs [])))"
  from assms(1) have ne: "subs \<noteq> []" by auto
  then have poll: "pollStates up subs = checkSubscriptions subs states"
    by (simp add: pollStates_def states_def Let_def)
  from poll_states_fetched[OF assms(1) assms(4) assms(5) assms(6) assms(7)]
  have rel: "distinct (map entity_id (relevantStates sub states))"
    "new \<in> set (relevantStates sub states)"
    by (simp_all add: states_def)
  from checkStates_present[OF rel, of sub] assms(3) assms(7)
  have cs: "callbacks_for (sub_id sub) X (snd (checkStates sub (relevantStates sub states))) =
      (if stateChanged old new then [Invoked (sub_id sub) X (Some new) (Some old)] else [])"
    and ls: "lastStates (fst (checkStates sub (relevantStates sub states))) X = Some new"
    by auto
  have first: "callbacks_for (sub_id sub) X (snd (pollStates up subs)) =
           (if stateChanged old new then [Invoked (sub_id sub) X (Some new) (Some old)] else [])"
    using checkSubscriptions_callbacks[OF assms(2) assms(1), of X states] cs poll by simp
  have mem: "fst (checkStates sub (relevantStates sub states)) \<in> set (fst (pollStates up subs))"
    using assms(1) by (simp add: poll checkSubscriptions_fst)
  from first mem ls checkStates_sub_id checkStates_entityIds show ?thesis by blast
qed

text \<open>
  C1, as the code has it. A subscription of the polling transport holds the last-known
  record \<open>old\<close> for entity \<open>X\<close>, \<open>X\<close> is in its filter (or the filter is empty), and the
  tick fetches the record \<open>new\<close> for \<open>X\<close> from an upstream list with one record per
  entity. Then the tick fires the subscription's callback for \<open>X\<close> exactly once, with
  \<open>(X, new, old)\<close>, if \<open>new\<close> differs from \<open>old\<close> in the state string or in the
  \<open>last_updated\<close> timestamp, and not at all otherwise; and afterwards \<open>new\<close> is the
  last-known record. So a second tick with the same record fires nothing, and a tick
  where only \<open>last_updated\<close> differs fires once. The \<open>last_changed\<close> timestamp is not
  compared.
\<close>

theorem poll_callback_iff_changed:
  assumes "sub \<in> set subs" and "distinct (map sub_id subs)"
    and "lastStates sub X = Some old"
    and "entityIds sub = [] \<or> X \<in> set (entityIds sub)"
    and "distinct (map entity_id (getAllStates_rest up))"
    and "new \<in> set (getAllStates_rest up)" and "entity_id new = X"
  shows "callbacks_for (sub_id sub) X (snd (pollStates up subs)) =
           (if state old \<noteq> state new \<or> last_updated old \<noteq> last_updated new
            then [Invoked (sub_id sub) X (Some new) (Some old)] else []) \<and>
         (\<exists>sub'. sub' \<in> set (fst (pollStates up subs)) \<and> sub_id sub' = sub_id sub \<and>
            lastStates sub' X = Some new) \<and>
         callbacks_for (sub_id sub) X (snd (pollStates up (fst (pollStates up subs)))) = []"
proof -
  have sc: "stateChanged a b = (state a \<noteq> state b \<or> last_updated a \<noteq> last_updated b)" for a b
    by (simp add: stateChanged_def)
  from poll_tick[OF assms]
  have first: "callbacks_for (sub_id sub) X (snd (pollStates up subs)) =
           (if stateChanged old new then [Invoked (sub_id sub) X (Some new) (Some old)] else [])"
    and ex: "\<exists>sub'. sub' \<in> set (fst (pollStates up subs)) \<and> sub_id sub' = sub_id sub \<and>
            entityIds sub' = entityIds sub \<and> lastStates sub' X = Some new"
    by simp_all
  from ex obtain sub' where s': "sub' \<in> set (fst (pollStates up subs))"
    "sub_id sub' = sub_id sub" "entityIds sub' = entityIds sub" "lastStates sub' X = Some new"
    by blast
  have d': "distinct (map sub_id (fst (pollStates up subs)))"
    using assms(2) by (simp add: pollStates_sub_ids)
  have f': "entityIds sub' = [] \<or> X \<in> set (entityIds sub')"
    using assms(4) s'(3) by simp
  from poll_tick[OF s'(1) d' s'(4) f' assms(5) assms(6) assms(7)] s'(2)
  have second: "callbacks_for (sub_id sub) X (snd (pollStates up (fst (pollStates up subs)))) = []"
    by (simp add: sc)
  from first s' second show ?thesis by (auto simp: sc)
qed

text \<open>
  The theorem at a tick after an attribute-only update (only \<open>last_updated\<close> moved):
  one callback, and none at the next tick with the same record.
\<close>

theorem poll_callback_iff_changed_witness:
  "callbacks_for ''s1'' ''sensor.x'' (snd (pollStates (ex_up [ex_new_updated]) [ex_sub])) =
     [Invoked ''s1'' ''sensor.x'' (Some ex_new_updated) (Some ex_old)] \<and>
   (\<exists>sub'. sub' \<in> set (fst (pollStates (ex_up [ex_new_updated]) [ex_sub])) \<and>
      sub_id sub' = ''s1'' \<and> lastStates sub' ''sensor.x'' = Some ex_new_updated) \<and>
   callbacks_for ''s1'' ''sensor.x''
     (snd (pollStates (ex_up [ex_new_updated])
        (fst (pollStates (ex_up [ex_new_updated]) [ex_sub])))) = []"
proof -
  have h1: "ex_sub \<in> set [ex_sub]" by simp
  have h2: "distinct (map sub_id [ex_sub])" by simp
  have h3: "lastStates ex_sub ''sensor.x'' = Some ex_old" by (simp add: ex_sub_def)
  have h4: "entityIds ex_sub = [] \<or> ''sensor.x'' \<in> set (entityIds ex_sub)"
    by (simp add: ex_sub_def)
  have up: "getAllStates_rest (ex_up [ex_new_updated]) = [ex_new_updated]"
    by (simp add: getAllStates_rest_def getAllStates_rest_try_def ex_up_def res_ok_def)
  have h5: "distinct (map entity_id (getAllStates_rest (ex_up [ex_new_updated])))"
    by (simp add: up)
  have h6: "ex_new_updated \<in> set (getAllStates_rest (ex_up [ex_new_updated]))"
    by (simp add: up)
  have h7: "entity_id ex_new_updated = ''sensor.x''"
    by (simp add: ex_new_updated_def ex_old_def)
  have sid: "sub_id ex_sub = ''s1''" by (simp add: ex_sub_def)
  have diff: "last_updated ex_old \<noteq> last_updated ex_new_updated"
    by (simp add: ex_new_updated_def ex_old_def)
  from poll_callback_iff_changed[OF h1 h2 h3 h4 h5 h6 h7] sid diff show ?thesis by simp
qed

text \<open>
  C1 as stated fails in both directions. A record that differs from the last-known
  one only in \<open>last_changed\<close> fires no callback; a record with the same state string and
  the same \<open>last_changed\<close>, differing only in \<open>last_updated\<close>, fires one.
\<close>

theorem poll_last_changed_counterexample:
  "lastStates ex_sub ''sensor.x'' = Some ex_old \<and>
   state ex_new_changed = state ex_old \<and>
   last_changed ex_new_changed \<noteq> last_changed ex_old \<and>
   callbacks_for ''s1'' ''sensor.x'' (snd (pollStates (ex_up [ex_new_changed]) [ex_sub])) = [] \<and>
   state ex_new_updated = state ex_old \<and>
   last_changed ex_new_updated = last_changed ex_old \<and>
   callbacks_for ''s1'' ''sensor.x'' (snd (pollStates (ex_up [ex_new_updated]) [ex_sub])) =
     [Invoked ''s1'' ''sensor.x'' (Some ex_new_updated) (Some ex_old)]"
  by (simp add: pollStates_def ex_up_def ex_sub_def ex_old_def ex_new_updated_def
      ex_new_changed_def getAllStates_rest_def getAllStates_rest_try_def getStates_rest_def
      new_Set_def set_add_def res_ok_def relevantStates_def stateChanged_def invoke_def)

section \<open>Properties of the state queries\<close>

lemma set_update_subset: "set (AList.update k v al) \<subseteq> insert (k, v) (set al)"
  by (induction al) auto

lemma getStates_loop_keys:
  "fst ` set (getStates_loop ids U acc) = fst ` set acc \<union> (set ids \<inter> entity_id ` set U)"
  by (induction U arbitrary: acc) (auto simp: dom_update)

lemma getStates_loop_distinct_keys:
  "distinct (map fst acc) \<Longrightarrow> distinct (map fst (getStates_loop ids U acc))"
  by (induction U arbitrary: acc) (auto simp: distinct_update)

lemma getStates_loop_entries:
  "set (getStates_loop ids U acc) \<subseteq> set acc \<union> (\<lambda>s. (entity_id s, s)) ` set U"
proof (induction U arbitrary: acc)
  case Nil
  then show ?case by simp
next
  case (Cons s U)
  show ?case
  proof (cases "entity_id s \<in> set ids")
    case True
    have "set (getStates_loop ids U (AList.update (entity_id s) s acc))
        \<subseteq> set (AList.update (entity_id s) s acc) \<union> (\<lambda>s. (entity_id s, s)) ` set U"
      by (rule Cons.IH)
    with set_update_subset[of "entity_id s" s acc] True show ?thesis by auto
  next
    case False
    with Cons.IH[of acc] show ?thesis by auto
  qed
qed

lemma getStates_loop_exact:
  "exactly_existing_subset E U (getStates_loop (new_Set E) U [])"
  unfolding exactly_existing_subset_def
  using getStates_loop_keys[of "new_Set E" U "[]"]
    getStates_loop_distinct_keys[of "[]" "new_Set E" U]
    getStates_loop_entries[of "new_Set E" U "[]"]
  by (simp add: set_new_Set)

text \<open>
  C6. For every list \<open>E\<close> of entity ids, the bulk fetch of the polling transport
  returns a map whose keys are exactly the ids of \<open>E\<close> that occur in the upstream state
  list, each entry an upstream state under its own id; it has no error result. The
  bulk fetch of the streaming transport returns such a map whenever its \<open>get_states\<close>
  call settles with a response, and whether it fails does not depend on \<open>E\<close>: an id
  that is missing upstream is absent from the map and causes no error.
\<close>

theorem getStates_exact_subset:
  "exactly_existing_subset E (getAllStates_rest up) (getStates_rest up E) \<and>
   (case getAllStates_ws r of
      Inl err \<Rightarrow> getStates_ws r E = Inl err
    | Inr upstream \<Rightarrow>
        (\<exists>m. getStates_ws r E = Inr m \<and> exactly_existing_subset E upstream m)) \<and>
   isl (getStates_ws r E) = isl (getStates_ws r [])"
  by (auto simp: getStates_rest_def getStates_ws_def getStates_loop_exact split: sum.splits)

theorem getStates_exact_subset_witness:
  "getStates_rest (ex_up [ex_old]) [''sensor.x'', ''sensor.missing''] = [(''sensor.x'', ex_old)] \<and>
   getStates_ws (Resolves (result_frame 1 [ex_old])) [''sensor.x'', ''sensor.missing'']
     = Inr [(''sensor.x'', ex_old)] \<and>
   exactly_existing_subset [''sensor.x'', ''sensor.missing''] (getAllStates_rest (ex_up [ex_old]))
     (getStates_rest (ex_up [ex_old]) [''sensor.x'', ''sensor.missing''])"
  using getStates_exact_subset[of "[''sensor.x'', ''sensor.missing'']" "ex_up [ex_old]"
      "Resolves (result_frame 1 [ex_old])"]
  by (simp add: getStates_rest_def getStates_ws_def getAllStates_ws_def getAllStates_rest_def
      getAllStates_rest_try_def ex_up_def result_frame_def res_ok_def new_Set_def set_add_def
      ex_old_def)

text \<open>
  C9, as the code has it. The single-entity query of the polling transport never
  raises: it returns the parsed body of a response with an ok status, and null on a
  404, on any other status, on a body that does not parse and on a network error. The
  single-entity query of the streaming transport returns null exactly when the id is
  absent from the bulk result, and raises the error of its \<open>get_states\<close> call when that
  call is rejected (request timeout, closed connection, failed authentication).
\<close>

theorem getState_rest_total_ws_propagates:
  "(case get_state up e of
      NetworkError x \<Rightarrow> getState_rest up e = Inr None
    | Response status txt json \<Rightarrow>
        getState_rest up e = Inr (if res_ok status then json else None)) \<and>
   (case getAllStates_ws r of
      Inl err \<Rightarrow> getState_ws r e = Inl err
    | Inr upstream \<Rightarrow>
        (\<exists>v. getState_ws r e = Inr v \<and> (v = None) = (e \<notin> entity_id ` set upstream)))"
proof -
  have rest: "(case get_state up e of
      NetworkError x \<Rightarrow> getState_rest up e = Inr None
    | Response status txt json \<Rightarrow>
        getState_rest up e = Inr (if res_ok status then json else None))"
    by (auto simp: getState_rest_def getState_rest_try_def
        split: fetch_outcome.splits option.splits)
  have ws: "(case getAllStates_ws r of
      Inl err \<Rightarrow> getState_ws r e = Inl err
    | Inr upstream \<Rightarrow>
        (\<exists>v. getState_ws r e = Inr v \<and> (v = None) = (e \<notin> entity_id ` set upstream)))"
    by (auto simp: getState_ws_def getStates_ws_def map_of_eq_None_iff getStates_loop_keys
        set_new_Set split: sum.splits)
  from rest ws show ?thesis by simp
qed

theorem getState_rest_total_ws_propagates_witness:
  "getState_rest (ex_up []) ''sensor.missing'' = Inr None \<and>
   getState_ws (Resolves (result_frame 1 [ex_old])) ''sensor.missing'' = Inr None"
  using getState_rest_total_ws_propagates[of "ex_up []" "''sensor.missing''"
      "Resolves (result_frame 1 [ex_old])"]
  by (simp add: ex_up_def res_ok_def getAllStates_ws_def result_frame_def ex_old_def
      getState_ws_def getStates_ws_def new_Set_def set_add_def)

text \<open>
  C9 as stated fails on the streaming transport: when the \<open>get_states\<close> request times
  out, \<open>getState\<close> raises the timeout error.
\<close>

theorem getState_ws_raises_counterexample:
  "getState_ws (Rejects RequestTimedOut) ''sensor.x'' = Inl RequestTimedOut"
  by (simp add: getState_ws_def getStates_ws_def getAllStates_ws_def)

section \<open>Properties of the streaming transport\<close>

lemma reject_call_effects: "reject_call c e st = st\<lparr>effects := effects st @ reject_trace c e\<rparr>"
  by (cases c) (simp_all add: reject_call_def reject_trace_def emit_def)

lemma foldl_reject_call:
  "foldl (\<lambda>s p. reject_call (f p) e s) st ps =
     st\<lparr>effects := effects st @ concat (map (\<lambda>p. reject_trace (f p) e) ps)\<rparr>"
  by (induction ps arbitrary: st) (simp_all add: reject_call_effects)

lemma rejections_append: "rejections (es @ fs) = rejections es @ rejections fs"
  by (induction es rule: rejections.induct) simp_all

lemma rejections_reject_traces:
  "rejections (concat (map (\<lambda>p. reject_trace (f p) e) ps)) = map (\<lambda>p. (f p, e)) ps"
  by (induction ps) (auto simp: rejections_append reject_trace_def split: caller.splits)

lemmas ws_defs = ws_run_def ws_init_def connect_def on_open_def
  on_message_def sendRaw_def on_auth_ok_def setReady_def settle_connect_def call_def
  register_call_def on_close_def reject_call_def emit_def Let_def on_auth_invalid_def
  auth_message_def socket_close_def rejectReady_def on_reconnect_timeout_def
  activateStateSubscription_def resolve_call_def

lemma ex_connected_one_call_eq:
  "ex_connected_one_call =
     \<lparr>token = ''tok'', nextId = 2, pending = [(1, External 0)], subscriptions = [],
      isConnected = True, stateSubscriptionActive = False, socket = Some OPEN,
      readyPromise = Resolved, readyWaiters = [], connectPromise = Resolved,
      connectionTimeout = False, reconnectTimeout = False,
      outbox = [AuthMsg ''tok'', CommandMsg 1 (Command ''get_states'' None)], effects = []\<rparr>"
  by (simp add: ex_connected_one_call_def handshake_def plain_frame_def ws_defs)

text \<open>
  C2, as the code has it. When the streaming channel closes, every registered pending
  request is rejected with the connection-closed error, in the order of the pending
  table, and the table is emptied; the connected flag and the upstream-subscribed flag
  drop and a reconnect is scheduled. The correlation-id counter is not reset: the
  close handler leaves it as it is, so correlation ids continue after a reconnect.
\<close>

theorem close_fails_pending_keeps_counter:
  "pending (on_close st) = [] \<and>
   rejections (effects (on_close st)) =
     rejections (effects st) @ map (\<lambda>p. (snd p, ConnectionClosed)) (pending st) \<and>
   nextId (on_close st) = nextId st \<and>
   \<not> isConnected (on_close st) \<and>
   \<not> stateSubscriptionActive (on_close st) \<and>
   reconnectTimeout (on_close st)"
  by (simp add: on_close_def Let_def foldl_reject_call rejections_append rejections_reject_traces)

theorem close_fails_pending_keeps_counter_witness:
  "pending (on_close ex_connected_one_call) = [] \<and>
   rejections (effects (on_close ex_connected_one_call)) = [(External 0, ConnectionClosed)] \<and>
   nextId (on_close ex_connected_one_call) = 2"
  using close_fails_pending_keeps_counter[of ex_connected_one_call]
  by (simp add: ex_connected_one_call_eq)

text \<open>
  C2 as stated fails: a transport is constructed (counter 1), connects and sends one
  command with id 1 (counter 2); after the close the counter is still 2, and the first
  command after the reconnect goes out with id 2.
\<close>

theorem close_resets_counter_counterexample:
  "nextId (ws_init ''tok'') = 1 \<and>
   nextId ex_connected_one_call = 2 \<and>
   nextId (on_close ex_connected_one_call) = 2 \<and>
   outbox (ws_run (on_close ex_connected_one_call)
            ([ReconnectTimerFired, SocketOpen, SocketMessage (Json (plain_frame ''auth_required'')),
              SocketMessage (Json (plain_frame ''auth_ok'')),
              DoCall 0 (Command ''get_states'' None)]))
     = [AuthMsg ''tok'', CommandMsg 1 (Command ''get_states'' None),
        AuthMsg ''tok'', CommandMsg 2 (Command ''get_states'' None)]"
  by (simp add: ex_connected_one_call_eq) (simp add: plain_frame_def ws_defs)





lemma socket_close_fields:
  "connectPromise (socket_close st) = connectPromise st \<and>
   reconnectTimeout (socket_close st) = reconnectTimeout st \<and>
   readyPromise (socket_close st) = readyPromise st \<and>
   readyWaiters (socket_close st) = readyWaiters st \<and>
   effects (socket_close st) = effects st"
  by (cases "socket st") (simp_all add: socket_close_def)



















section \<open>Isolation of subscriber failures\<close>

lemma invocations_append: "invocations (es @ fs) = invocations es @ invocations fs"
  by (induction es rule: invocations.induct) simp_all

lemma logged_errors_append: "logged_errors (es @ fs) = logged_errors es @ logged_errors fs"
  by (induction es rule: logged_errors.induct) simp_all

lemma invocations_invoke: "invocations (invoke sub e new old) = [Invoked (sub_id sub) e new old]"
  by (simp add: invoke_def split: cb_result.splits)

lemma logged_errors_invoke: "logged_errors (invoke sub e new old) = thrown sub e new old"
  by (simp add: invoke_def thrown_def split: cb_result.splits)

lemma dispatch_invocations:
  "invocations (dispatch subs e new old) =
     map (\<lambda>s. Invoked (sub_id s) e new old) (filter (\<lambda>s. matches s e) subs)"
  by (induction subs) (simp_all add: invocations_append invocations_invoke matches_def)

lemma dispatch_logged:
  "logged_errors (dispatch subs e new old) =
     concat (map (\<lambda>s. thrown s e new old) (filter (\<lambda>s. matches s e) subs))"
  by (induction subs) (simp_all add: logged_errors_append logged_errors_invoke matches_def)

lemma checkStates_callback_gen:
  "sub' = sub\<lparr>callback := c\<rparr> \<Longrightarrow>
   fst (checkStates sub' ns) = (fst (checkStates sub ns))\<lparr>callback := c\<rparr> \<and>
   invocations (snd (checkStates sub' ns)) = invocations (snd (checkStates sub ns))"
proof (induction ns arbitrary: sub sub')
  case Nil
  then show ?case by simp
next
  case (Cons n ns)
  let ?L = "(lastStates sub)(entity_id n \<mapsto> n)"
  have eq: "sub'\<lparr>lastStates := (lastStates sub')(entity_id n \<mapsto> n)\<rparr>
      = (sub\<lparr>lastStates := ?L\<rparr>)\<lparr>callback := c\<rparr>"
    using Cons.prems by simp
  have ids: "sub_id sub' = sub_id sub" "lastStates sub' = lastStates sub"
    using Cons.prems by simp_all
  from Cons.IH[OF eq] ids show ?case
    by (simp add: Let_def invocations_append invocations_invoke split: option.splits)
qed

lemma checkStates_callback:
  "fst (checkStates (sub\<lparr>callback := c\<rparr>) ns) = (fst (checkStates sub ns))\<lparr>callback := c\<rparr> \<and>
   invocations (snd (checkStates (sub\<lparr>callback := c\<rparr>) ns)) = invocations (snd (checkStates sub ns))"
  by (rule checkStates_callback_gen) simp

lemma relevantStates_callback: "relevantStates (sub\<lparr>callback := c\<rparr>) states = relevantStates sub states"
  by (simp add: relevantStates_def)

lemma checkSubscriptions_callbacks_irrelevant:
  "fst (checkSubscriptions (with_callbacks f subs) states) =
     with_callbacks f (fst (checkSubscriptions subs states)) \<and>
   invocations (snd (checkSubscriptions (with_callbacks f subs) states)) =
     invocations (snd (checkSubscriptions subs states))"
  by (induction subs)
     (simp_all add: with_callbacks_def Let_def invocations_append checkStates_callback
       relevantStates_callback checkStates_sub_id)

lemma collectEntityIds_callbacks:
  "collectEntityIds (with_callbacks f subs) acc = collectEntityIds subs acc"
  by (induction subs arbitrary: acc) (simp_all add: with_callbacks_def)

lemma pollStates_callbacks_irrelevant:
  "fst (pollStates up (with_callbacks f subs)) = with_callbacks f (fst (pollStates up subs)) \<and>
   invocations (snd (pollStates up (with_callbacks f subs))) = invocations (snd (pollStates up subs))"
proof (cases "subs = []")
  case True
  then show ?thesis by (simp add: pollStates_def with_callbacks_def)
next
  case False
  then have "with_callbacks f subs \<noteq> []" by (simp add: with_callbacks_def)
  with False show ?thesis
    by (simp add: pollStates_def Let_def collectEntityIds_callbacks
        checkSubscriptions_callbacks_irrelevant)
qed

lemma invocations_concat:
  "invocations (concat (map f xs)) = concat (map (\<lambda>x. invocations (f x)) xs)"
  by (induction xs) (simp_all add: invocations_append)

lemma logged_errors_concat:
  "logged_errors (concat (map f xs)) = concat (map (\<lambda>x. logged_errors (f x)) xs)"
  by (induction xs) (simp_all add: logged_errors_append)

lemma checkSubscriptions_snd:
  "snd (checkSubscriptions subs states) =
     concat (map (\<lambda>sub. snd (checkStates sub (relevantStates sub states))) subs)"
  by (induction subs) (simp_all add: Let_def)

lemma checkStates_fst: "fst (checkStates sub ns) = tick_lastStates sub ns"
  by (induction ns arbitrary: sub) (simp_all add: Let_def tick_lastStates_def)

lemma fire_other:
  "entity_id m \<noteq> k \<Longrightarrow> fire (sub\<lparr>lastStates := (lastStates sub)(k \<mapsto> v)\<rparr>) m = fire sub m"
  by (auto simp: fire_def fires_def invoke_def split: option.splits cb_result.splits)

lemma checkStates_snd:
  "distinct (map entity_id ns) \<Longrightarrow> snd (checkStates sub ns) = concat (map (fire sub) ns)"
proof (induction ns arbitrary: sub)
  case Nil
  then show ?case by simp
next
  case (Cons n ns)
  let ?sub' = "sub\<lparr>lastStates := (lastStates sub)(entity_id n \<mapsto> n)\<rparr>"
  from Cons.prems have d: "distinct (map entity_id ns)" by simp
  from Cons.prems have notin: "entity_id n \<notin> entity_id ` set ns" by simp
  have ne: "entity_id m \<noteq> entity_id n" if "m \<in> set ns" for m
    using that notin by (metis imageI)
  have "map (fire ?sub') ns = map (fire sub) ns"
    by (rule map_cong[OF refl]) (simp add: fire_other ne)
  with Cons.IH[OF d, of ?sub'] have rest: "snd (checkStates ?sub' ns) = concat (map (fire sub) ns)"
    by simp
  have hd: "(case lastStates sub (entity_id n) of
               None \<Rightarrow> invoke sub (entity_id n) (Some n) None
             | Some old \<Rightarrow> if stateChanged old n
                           then invoke sub (entity_id n) (Some n) (Some old) else []) = fire sub n"
    by (simp add: fire_def fires_def stateChanged_def split: option.splits)
  show ?case using rest hd by (simp add: Let_def)
qed

lemma invocations_fire:
  "concat (map (\<lambda>n. invocations (fire sub n)) ns) = tick_invocations sub ns"
  by (induction ns) (simp_all add: tick_invocations_def fire_def invocations_invoke)

lemma logged_errors_fire:
  "concat (map (\<lambda>n. logged_errors (fire sub n)) ns) = tick_errors sub ns"
  by (induction ns) (simp_all add: tick_errors_def fire_def logged_errors_invoke)

lemma relevant_polled:
  assumes "sub \<in> set subs" and "distinct (map entity_id (getAllStates_rest up))"
  defines "allEntityIds \<equiv> collectEntityIds subs []"
  defines "states \<equiv> (if allEntityIds = [] then getAllStates_rest up
                      else map snd (getStates_rest up allEntityIds))"
  shows "relevantStates sub states =
           filter (\<lambda>n. matches sub (entity_id n)) (getAllStates_rest up)"
proof (cases "allEntityIds = []")
  case True
  then have "states = getAllStates_rest up" by (simp add: states_def)
  then show ?thesis by (simp add: relevantStates_def matches_def)
next
  case False
  with collect_wants_all[OF assms(1), of "[]"] have ne: "entityIds sub \<noteq> []"
    by (auto simp: allEntityIds_def)
  from collect_covers[OF assms(1), of "[]"] False
  have cov: "set (entityIds sub) \<subseteq> set allEntityIds"
    by (auto simp: allEntityIds_def)
  have "states = filter (\<lambda>s. entity_id s \<in> set allEntityIds) (getAllStates_rest up)"
    using False assms(2)
    by (simp add: states_def getStates_rest_def getStates_loop_distinct set_new_Set comp_def)
  with ne cov show ?thesis
    by (auto simp: relevantStates_def matches_def intro: filter_cong)
qed

lemma pollStates_exact:
  assumes "distinct (map entity_id (getAllStates_rest up))"
  shows "snd (pollStates up subs) =
           concat (map (\<lambda>sub. concat (map (fire sub)
              (filter (\<lambda>n. matches sub (entity_id n)) (getAllStates_rest up)))) subs) \<and>
         fst (pollStates up subs) =
           map (\<lambda>sub. tick_lastStates sub
              (filter (\<lambda>n. matches sub (entity_id n)) (getAllStates_rest up))) subs"
proof (cases "subs = []")
  case True
  then show ?thesis by (simp add: pollStates_def)
next
  case False
  define states where "states = (if collectEntityIds subs [] = [] then getAllStates_rest up
                      else map snd (getStates_rest up (collectEntityIds subs [])))"
  have poll: "pollStates up subs = checkSubscriptions subs states"
    using False by (simp add: pollStates_def states_def Let_def)
  have rel: "sub \<in> set subs \<Longrightarrow> relevantStates sub states =
      filter (\<lambda>n. matches sub (entity_id n)) (getAllStates_rest up)"
    for sub :: rest_subscription
    using relevant_polled[OF _ assms, of sub subs] by (simp add: states_def)
  have dist: "distinct (map entity_id (filter (\<lambda>n. matches sub (entity_id n)) (getAllStates_rest up)))"
    for sub :: rest_subscription using assms by (simp add: distinct_map_filter)
  have s: "snd (checkSubscriptions subs states) =
      concat (map (\<lambda>sub. concat (map (fire sub)
              (filter (\<lambda>n. matches sub (entity_id n)) (getAllStates_rest up)))) subs)"
    unfolding checkSubscriptions_snd
    by (rule arg_cong[where f = concat], rule map_cong[OF refl])
       (simp add: rel checkStates_snd[OF dist])
  have f: "fst (checkSubscriptions subs states) =
      map (\<lambda>sub. tick_lastStates sub
              (filter (\<lambda>n. matches sub (entity_id n)) (getAllStates_rest up))) subs"
    unfolding checkSubscriptions_fst
    by (rule map_cong[OF refl]) (simp add: rel checkStates_fst)
  from s f poll show ?thesis by simp
qed

text \<open>
  C7. A dispatch of the streaming transport invokes the callback of every matching
  subscription, in order, whichever of the callbacks throw; each exception is caught
  and logged with its subscription id; and handling the event frame changes nothing
  of the transport but its trace. A poll tick of the polling transport makes the same
  callback invocations, and leaves the same subscriptions and last-known records,
  whatever the callbacks do: replacing the callbacks by any others, throwing or not,
  changes neither. Against an upstream list with one record per entity the tick is
  pinned down: every subscription, in order, is invoked for exactly the fetched
  records that match its filter and fire it, whichever callbacks throw; every
  exception thrown is logged with its subscription id; and the last-known records of
  every subscription are overwritten by all fetched records that match its filter.
\<close>

theorem callback_failure_isolated:
  "invocations (dispatch subs eid newS oldS) =
     map (\<lambda>s. Invoked (sub_id s) eid newS oldS) (filter (\<lambda>s. matches s eid) subs) \<and>
   logged_errors (dispatch subs eid newS oldS) =
     concat (map (\<lambda>s. thrown s eid newS oldS) (filter (\<lambda>s. matches s eid) subs)) \<and>
   (map_of (pending st) i = None \<longrightarrow>
      on_message (Json (state_changed_frame i eid oldS newS)) st =
        st\<lparr>effects := effects st @ dispatch (subscriptions st) eid newS oldS\<rparr>) \<and>
   invocations (snd (pollStates up (with_callbacks f rsubs))) =
     invocations (snd (pollStates up rsubs)) \<and>
   fst (pollStates up (with_callbacks f rsubs)) = with_callbacks f (fst (pollStates up rsubs)) \<and>
   (distinct (map entity_id (getAllStates_rest up)) \<longrightarrow>
      invocations (snd (pollStates up rsubs)) =
        concat (map (\<lambda>sub. tick_invocations sub
                  (filter (\<lambda>n. matches sub (entity_id n)) (getAllStates_rest up))) rsubs) \<and>
      logged_errors (snd (pollStates up rsubs)) =
        concat (map (\<lambda>sub. tick_errors sub
                  (filter (\<lambda>n. matches sub (entity_id n)) (getAllStates_rest up))) rsubs) \<and>
      fst (pollStates up rsubs) =
        map (\<lambda>sub. tick_lastStates sub
               (filter (\<lambda>n. matches sub (entity_id n)) (getAllStates_rest up))) rsubs)"
proof -
  have streaming: "invocations (dispatch subs eid newS oldS) =
     map (\<lambda>s. Invoked (sub_id s) eid newS oldS) (filter (\<lambda>s. matches s eid) subs) \<and>
   logged_errors (dispatch subs eid newS oldS) =
     concat (map (\<lambda>s. thrown s eid newS oldS) (filter (\<lambda>s. matches s eid) subs)) \<and>
   (map_of (pending st) i = None \<longrightarrow>
      on_message (Json (state_changed_frame i eid oldS newS)) st =
        st\<lparr>effects := effects st @ dispatch (subscriptions st) eid newS oldS\<rparr>)"
    by (simp add: dispatch_invocations dispatch_logged on_message_def state_changed_frame_def
        handleStateChanged_def)
  have indep: "invocations (snd (pollStates up (with_callbacks f rsubs))) =
     invocations (snd (pollStates up rsubs)) \<and>
   fst (pollStates up (with_callbacks f rsubs)) = with_callbacks f (fst (pollStates up rsubs))"
    by (simp add: pollStates_callbacks_irrelevant)
  have exact: "distinct (map entity_id (getAllStates_rest up)) \<longrightarrow>
      invocations (snd (pollStates up rsubs)) =
        concat (map (\<lambda>sub. tick_invocations sub
                  (filter (\<lambda>n. matches sub (entity_id n)) (getAllStates_rest up))) rsubs) \<and>
      logged_errors (snd (pollStates up rsubs)) =
        concat (map (\<lambda>sub. tick_errors sub
                  (filter (\<lambda>n. matches sub (entity_id n)) (getAllStates_rest up))) rsubs) \<and>
      fst (pollStates up rsubs) =
        map (\<lambda>sub. tick_lastStates sub
               (filter (\<lambda>n. matches sub (entity_id n)) (getAllStates_rest up))) rsubs"
  proof
    assume d: "distinct (map entity_id (getAllStates_rest up))"
    from pollStates_exact[OF d, of rsubs]
    show "invocations (snd (pollStates up rsubs)) =
        concat (map (\<lambda>sub. tick_invocations sub
                  (filter (\<lambda>n. matches sub (entity_id n)) (getAllStates_rest up))) rsubs) \<and>
      logged_errors (snd (pollStates up rsubs)) =
        concat (map (\<lambda>sub. tick_errors sub
                  (filter (\<lambda>n. matches sub (entity_id n)) (getAllStates_rest up))) rsubs) \<and>
      fst (pollStates up rsubs) =
        map (\<lambda>sub. tick_lastStates sub
               (filter (\<lambda>n. matches sub (entity_id n)) (getAllStates_rest up))) rsubs"
      by (simp add: invocations_concat logged_errors_concat invocations_fire logged_errors_fire)
  qed
  from streaming indep exact show ?thesis by simp
qed

theorem callback_failure_isolated_witness:
  "invocations (dispatch [ex_throwing_sub, ex_ws_sub] ''sensor.x'' (Some ex_old) None) =
     [Invoked ''s0'' ''sensor.x'' (Some ex_old) None,
      Invoked ''s1'' ''sensor.x'' (Some ex_old) None] \<and>
   logged_errors (dispatch [ex_throwing_sub, ex_ws_sub] ''sensor.x'' (Some ex_old) None) =
     [(''s0'', ''boom'')] \<and>
   invocations (snd (pollStates (ex_up [ex_new_updated]) [ex_throwing_rsub, ex_sub])) =
     [Invoked ''s0'' ''sensor.x'' (Some ex_new_updated) None,
      Invoked ''s1'' ''sensor.x'' (Some ex_new_updated) (Some ex_old)] \<and>
   logged_errors (snd (pollStates (ex_up [ex_new_updated]) [ex_throwing_rsub, ex_sub])) =
     [(''s0'', ''boom'')] \<and>
   map (\<lambda>s. lastStates s ''sensor.x'')
     (fst (pollStates (ex_up [ex_new_updated]) [ex_throwing_rsub, ex_sub])) =
     [Some ex_new_updated, Some ex_new_updated]"
proof -
  have up: "getAllStates_rest (ex_up [ex_new_updated]) = [ex_new_updated]"
    by (simp add: getAllStates_rest_def getAllStates_rest_try_def ex_up_def res_ok_def)
  have d: "distinct (map entity_id (getAllStates_rest (ex_up [ex_new_updated])))"
    by (simp add: up)
  have n: "entity_id ex_new_updated = ''sensor.x''" "state ex_new_updated = state ex_old"
    "last_updated ex_new_updated \<noteq> last_updated ex_old"
    by (simp_all add: ex_new_updated_def ex_old_def)
  have m: "matches ex_throwing_rsub ''sensor.x''" "matches ex_sub ''sensor.x''"
    "matches ex_throwing_sub ''sensor.x''" "matches ex_ws_sub ''sensor.x''"
    by (simp_all add: matches_def ex_throwing_rsub_def ex_sub_def ex_throwing_sub_def ex_ws_sub_def)
  have l: "lastStates ex_throwing_rsub ''sensor.x'' = None"
    "lastStates ex_sub ''sensor.x'' = Some ex_old"
    by (simp_all add: ex_throwing_rsub_def ex_sub_def)
  have i: "sub_id ex_throwing_rsub = ''s0''" "sub_id ex_sub = ''s1''"
    "sub_id ex_throwing_sub = ''s0''" "sub_id ex_ws_sub = ''s1''"
    by (simp_all add: ex_throwing_rsub_def ex_sub_def ex_throwing_sub_def ex_ws_sub_def)
  have t: "thrown ex_throwing_rsub e a b = [(''s0'', ''boom'')]" "thrown ex_sub e a b = []"
    "thrown ex_throwing_sub e a b = [(''s0'', ''boom'')]" "thrown ex_ws_sub e a b = []" for e a b
    by (simp_all add: thrown_def ex_throwing_rsub_def ex_sub_def ex_throwing_sub_def ex_ws_sub_def)
  from callback_failure_isolated[where subs = "[ex_throwing_sub, ex_ws_sub]"
      and eid = "''sensor.x''" and newS = "Some ex_old" and oldS = None
      and up = "ex_up [ex_new_updated]" and rsubs = "[ex_throwing_rsub, ex_sub]"]
    d up n m l i t
  show ?thesis
    by (simp add: tick_invocations_def tick_errors_def tick_lastStates_def fires_def)
qed


section \<open>Properties of the transport selector\<close>

lemma disconnect_fields:
  "socket (disconnect st) = None \<and> \<not> isConnected (disconnect st) \<and>
   \<not> reconnectTimeout (disconnect st) \<and> \<not> stateSubscriptionActive (disconnect st) \<and>
   subscriptions (disconnect st) = subscriptions st"
  by (cases "socket st") (simp_all add: disconnect_def socket_close_def)

lemma factory_fallback_when_rejected:
  "preferWebSocket opts \<Longrightarrow> \<not> forceRest env \<Longrightarrow>
   race (connect (ws_init (config_token env))) (ws_turns env) = RaceRejected err st \<Longrightarrow>
   ws_final (createReadTransport opts env) = Some (disconnect st) \<and>
   outcome (createReadTransport opts env) =
     (case connect_rest (rest_up env) of
        Inr ok \<Rightarrow> Returns \<lparr>activeTransport = Rest, wsAvailable = False, restAvailable = True\<rparr>
      | Inl e \<Rightarrow> Throws NoTransport)"
  by (simp add: createReadTransport_def rest_fallback_def split: sum.splits)

lemma race_refused: "race (connect (ws_init ''tok'')) refused_turns = RaceTerminated"
  by (simp add: refused_turns_def plain_frame_def terminated_def ws_defs)

lemma race_stalled:
  "race (connect (ws_init ''tok'')) stalled_turns =
     RaceRejected ConnectionTimeout
       \<lparr>token = ''tok'', nextId = 1, pending = [], subscriptions = [],
        isConnected = False, stateSubscriptionActive = False, socket = Some OPEN,
        readyPromise = Pending, readyWaiters = [], connectPromise = Pending,
        connectionTimeout = True, reconnectTimeout = False,
        outbox = [AuthMsg ''tok''], effects = []\<rparr>"
  by (simp add: stalled_turns_def plain_frame_def terminated_def ws_defs)

lemma stalled_run:
  "createReadTransport ex_opts (ex_env stalled_turns (ex_up [])) =
     \<lparr>outcome = Returns \<lparr>activeTransport = Rest, wsAvailable = False, restAvailable = True\<rparr>,
      ws_final = Some (disconnect ex_stalled)\<rparr>"
  by (simp add: createReadTransport_def ex_opts_def ex_env_def race_stalled ex_stalled_def
      rest_fallback_def connect_rest_def ex_up_def res_ok_def)

lemma refused_run:
  "createReadTransport ex_opts (ex_env refused_turns (ex_up [])) =
     \<lparr>outcome = ProcessTerminated, ws_final = None\<rparr>"
  by (simp add: createReadTransport_def ex_opts_def ex_env_def race_refused)

text \<open>
  C5, the code where it departs from the claim. The REST endpoint is reachable. When
  the platform refuses the token during the streaming handshake, the handler rejects
  the ready promise of the new transport, which nothing awaits, and the process ends:
  the selector neither returns the polling transport nor throws. When the platform
  never answers the credentials and the selector's timer fires, the selector
  disconnects the streaming transport and returns the polling one with
  \<open>wsAvailable = false\<close> and \<open>restAvailable = true\<close>; no reconnect timer is armed then, but
  the close event of the dropped socket still reaches the close handler, which arms
  the reconnect timer, and the timer opens a new socket.
\<close>

theorem factory_refused_credentials_end_process:
  "connect_rest (ex_up []) = Inr True \<and>
   outcome (createReadTransport ex_opts (ex_env refused_turns (ex_up []))) = ProcessTerminated \<and>
   outcome (createReadTransport ex_opts (ex_env stalled_turns (ex_up []))) =
     Returns \<lparr>activeTransport = Rest, wsAvailable = False, restAvailable = True\<rparr> \<and>
   map_option reconnectTimeout
     (after_factory (createReadTransport ex_opts (ex_env stalled_turns (ex_up []))) [])
     = Some False \<and>
   map_option reconnectTimeout
     (after_factory (createReadTransport ex_opts (ex_env stalled_turns (ex_up []))) [SocketClose])
     = Some True \<and>
   map_option socket
     (after_factory (createReadTransport ex_opts (ex_env stalled_turns (ex_up [])))
        [SocketClose, ReconnectTimerFired])
     = Some (Some CONNECTING)"
proof -
  have c: "connect_rest (ex_up []) = Inr True"
    by (simp add: connect_rest_def ex_up_def res_ok_def)
  have d: "reconnectTimeout (ws_run (disconnect ex_stalled) []) = False"
    by (simp add: ws_run_def disconnect_fields)
  have e: "reconnectTimeout (ws_run (disconnect ex_stalled) [SocketClose])"
    by (simp add: ws_run_def on_close_def Let_def)
  have f: "socket (ws_run (disconnect ex_stalled) [SocketClose, ReconnectTimerFired])
      = Some CONNECTING"
    using e by (simp add: ws_run_def on_reconnect_timeout_def connect_def)
  from c d e f show ?thesis
    by (simp add: stalled_run refused_run after_factory_def)
qed


section \<open>Properties of the live fan-out server\<close>

lemma sent_to_append: "sent_to ws (es @ fs) = sent_to ws es @ sent_to ws fs"
  by (induction ws es rule: sent_to.induct) simp_all

lemma sent_to_ws_send: "sent_to ws (ws_send env w m) = (if w = ws then [m] else [])"
  by (simp add: ws_send_def)

lemma broadcast_loop_other:
  "ws \<notin> fst ` set clients \<Longrightarrow> sent_to ws (broadcast_loop env clients e n) = []"
  by (induction clients) (auto simp: sent_to_append sent_to_ws_send)

lemma broadcast_loop_sent_to:
  "distinct (map fst clients) \<Longrightarrow> (ws, sub) \<in> set clients \<Longrightarrow>
   sent_to ws (broadcast_loop env clients e n) =
     (if e \<in> set (client_entityIds sub) \<and> readyStateOf env ws = OPEN
      then [StateUpdate e (state n) (attributes n) (now env)] else [])"
proof (induction clients)
  case Nil
  then show ?case by simp
next
  case (Cons c clients)
  obtain w s where c: "c = (w, s)" by (cases c)
  show ?case
  proof (cases "w = ws")
    case True
    with Cons.prems c have "s = sub" and "ws \<notin> fst ` set clients"
      by (auto simp: image_iff)
    with broadcast_loop_other[of ws clients env e n] True c show ?thesis
      by (simp add: sent_to_append sent_to_ws_send)
  next
    case False
    with Cons c show ?thesis by (auto simp: sent_to_append sent_to_ws_send)
  qed
qed

text \<open>
  C8, as the code has it. For every change event delivered to the fan-out server and
  every session in its clients map, the server sends the session exactly one
  \<open>state_update\<close> for the changed entity if the event carries a non-empty entity id and
  a new state, the entity id is in the session's filter and the session's socket is
  open; otherwise it sends the session nothing. So a change to an entity outside the
  filter is never forwarded, and an event without a new state (a removed entity) is
  forwarded to nobody.
\<close>

theorem fanout_forwards_iff_in_filter:
  assumes "distinct (map fst clients)" and "(ws, sub) \<in> set clients"
  shows "sent_to ws (broadcast env clients e newS oldS) =
     (case newS of
        None \<Rightarrow> []
      | Some n \<Rightarrow>
          if e \<noteq> [] \<and> e \<in> set (client_entityIds sub) \<and> readyStateOf env ws = OPEN
          then [StateUpdate e (state n) (attributes n) (now env)] else [])"
  using broadcast_loop_sent_to[OF assms]
  by (simp add: broadcast_def split: option.splits)

theorem fanout_forwards_iff_in_filter_witness:
  "sent_to 7 (broadcast ex_sockets [(7, ex_client)] ''sensor.abc_target_1_x''
                (Some ex_target_state) None) = [StateUpdate ''sensor.abc_target_1_x'' ''120'' [] 42] \<and>
   sent_to 7 (broadcast ex_sockets [(7, ex_client)] ''sensor.xyz_temp''
                (Some (ex_target_state\<lparr>entity_id := ''sensor.xyz_temp''\<rparr>)) None) = []"
proof -
  have h1: "distinct (map fst [(7::nat, ex_client)])" by simp
  have h2: "(7, ex_client) \<in> set [(7::nat, ex_client)]" by simp
  from fanout_forwards_iff_in_filter[OF h1 h2, of ex_sockets "''sensor.abc_target_1_x''" "Some ex_target_state" None]
       fanout_forwards_iff_in_filter[OF h1 h2, of ex_sockets "''sensor.xyz_temp''"
          "Some (ex_target_state\<lparr>entity_id := ''sensor.xyz_temp''\<rparr>)" None]
  show ?thesis by (simp add: ex_client_def ex_sockets_def ex_target_state_def)
qed

text \<open>
  C8 as stated fails: the entity is in the filter of an open session, and the event
  that reports its removal (no new state) is not forwarded.
\<close>

theorem fanout_removed_entity_counterexample:
  "''sensor.abc_target_1_x'' \<in> set (client_entityIds ex_client) \<and>
   readyStateOf ex_sockets 7 = OPEN \<and>
   sent_to 7 (broadcast ex_sockets [(7, ex_client)] ''sensor.abc_target_1_x''
                None (Some ex_target_state)) = []"
  by (simp add: ex_client_def ex_sockets_def broadcast_def)

text \<open>
  C10. A subscribe request passes validation, its entities resolve, and the bulk fetch
  of the initial states raises. Then the session is registered in the clients map with
  the resolved entity ids as its filter, and after the mapping warning (if one is due)
  it is sent a \<open>subscribed\<close> message that lists the resolved entities and has no
  \<open>initialStates\<close> field.
\<close>

theorem subscribe_survives_fetch_failure:
  assumes "passes_validation co r"
    and "getProfileById co (req_profileId r) = Some profile"
    and "resolveEntityIds co (req_deviceId r) profile (deviceNameOf r)
           (parseMappings (entityMappings r)) (hasMapping co (req_deviceId r)) = Inr ids"
    and "getStates co ids = Inl err"
  shows "map_of (fst (handleSubscribe co env ws r clients)) ws =
           Some \<lparr>deviceId = req_deviceId r, profileId = req_profileId r,
                 client_entityIds = ids, subscriptionId = (req_deviceId r, now env)\<rparr> \<and>
         snd (handleSubscribe co env ws r clients) =
           mappingWarning ws (req_deviceId r)
             (hasMapping co (req_deviceId r) \<or> parseMappings (entityMappings r) \<noteq> None) @
           [SendAttempt ws
              (Subscribed (req_deviceId r) (req_profileId r) ids None
                 (hasMapping co (req_deviceId r) \<or> parseMappings (entityMappings r) \<noteq> None))]"
  using assms
  by (simp add: handleSubscribe_def passes_validation_def admitSession_def Let_def
      sendSubscribed_def update_conv')

theorem subscribe_survives_fetch_failure_witness:
  "map_of (fst (handleSubscribe ex_collaborators ex_sockets 7 ex_request [])) 7 =
     Some (ex_client\<lparr>subscriptionId := (''abc'', 42)\<rparr>) \<and>
   snd (handleSubscribe ex_collaborators ex_sockets 7 ex_request []) =
     [SendAttempt 7 (Subscribed ''abc'' ''epl''
        [''binary_sensor.abc_occupancy'', ''sensor.abc_target_1_x''] None True)]"
proof -
  have dn: "deviceNameOf ex_request = ''abc''"
    by (simp add: deviceNameOf_def ex_request_def strip_domain_def strip_entity_suffix_def
        prefix_def suffix_def)
  have h1: "passes_validation ex_collaborators ex_request"
    by (simp add: passes_validation_def dn) (simp add: ex_request_def ex_collaborators_def)
  have h2: "getProfileById ex_collaborators (req_profileId ex_request) = Some ()"
    by (simp add: ex_request_def ex_collaborators_def)
  have h3: "resolveEntityIds ex_collaborators (req_deviceId ex_request) ()
              (deviceNameOf ex_request) (parseMappings (entityMappings ex_request))
              (hasMapping ex_collaborators (req_deviceId ex_request))
            = Inr [''binary_sensor.abc_occupancy'', ''sensor.abc_target_1_x'']"
    by (simp add: ex_collaborators_def)
  have h4: "getStates ex_collaborators [''binary_sensor.abc_occupancy'', ''sensor.abc_target_1_x'']
      = Inl RequestTimedOut"
    by (simp add: ex_collaborators_def)
  have f: "req_deviceId ex_request = ''abc''" "req_profileId ex_request = ''epl''"
    "now ex_sockets = 42" "hasMapping ex_collaborators ''abc''"
    by (simp_all add: ex_request_def ex_sockets_def ex_collaborators_def)
  from subscribe_survives_fetch_failure[OF h1 h2 h3 h4, of ex_sockets 7 "[]"] f
  show ?thesis
    by (simp add: mappingWarning_def ex_client_def)
qed


end
